theory Spec2Isabelle
  imports Main "HOL-Library.AList"
begin

section \<open>CCPM build script: values, files and libraries\<close>

text \<open>
  The development embeds \<^verbatim>\<open>build.py\<close>: the manifest loader, the archive builder,
  the archive codec, the pool reader and writer, the two index reconcilers and the
  top-level script.

  Python \<^verbatim>\<open>bytes\<close> are lists of 8-bit characters. Python \<^verbatim>\<open>str\<close> values are lists of
  characters too, a character standing for the code point of its number, so the texts
  covered are those with code points below 256. JSON numbers are integers (floats are
  left out).
\<close>

type_synonym bytes = string

subsection \<open>JSON values and the dictionary operations of Python\<close>

datatype json =
    JNull
  | JBool bool
  | JInt int
  | JStr string
  | JArr "json list"
  | JObj "(string \<times> json) list"

text \<open>
  The exception classes the script can meet. Each constructor is one class; \<open>ValueError\<close>
  is a \<^verbatim>\<open>ValueError\<close> that is none of its subclasses listed here, and
  \<open>OtherException\<close> is any other subclass of \<^verbatim>\<open>Exception\<close>.
\<close>

datatype exn =
    FileNotFoundError
  | IsADirectoryError
  | JSONDecodeError
  | ZlibError
  | BinasciiError
  | KeyError string
  | TypeError
  | ValueError
  | OtherException

text \<open>
  The result of a computation: a value, a raised exception, or \<open>Unmodelled\<close> where the
  run leaves what this development covers (a version that is not a string, a path with a
  directory separator in the pool).
\<close>

datatype 'a result = Return 'a | Raise exn | Unmodelled

fun and_then :: "'a result \<Rightarrow> ('a \<Rightarrow> 'b result) \<Rightarrow> 'b result" where
  "and_then (Return x) f = f x"
| "and_then (Raise e) f = Raise e"
| "and_then Unmodelled f = Unmodelled"

fun of_lib :: "exn + 'a \<Rightarrow> 'a result" where
  "of_lib (Inl e) = Raise e"
| "of_lib (Inr x) = Return x"

text \<open>\<^verbatim>\<open>needle in haystack\<close> on two strings: the needle occurs as a substring.\<close>

fun starts_with :: "string \<Rightarrow> string \<Rightarrow> bool" where
  "starts_with [] s = True"
| "starts_with (c # cs) [] = False"
| "starts_with (c # cs) (d # ds) = (c = d \<and> starts_with cs ds)"

fun substring :: "string \<Rightarrow> string \<Rightarrow> bool" where
  "substring n [] = (n = [])"
| "substring n (d # ds) = (starts_with n (d # ds) \<or> substring n ds)"

text \<open>
  \<^verbatim>\<open>key in v\<close>, \<^verbatim>\<open>v[key]\<close> and \<^verbatim>\<open>v[key] = x\<close> for a string key on a parsed JSON value.
  A dictionary keeps insertion order: assigning to a present key keeps its place, a new
  key goes last, which is \<open>AList.update\<close>.
\<close>

fun py_contains :: "json \<Rightarrow> string \<Rightarrow> bool result" where
  "py_contains (JObj kvs) k = Return (map_of kvs k \<noteq> None)"
| "py_contains (JArr xs) k = Return (List.member xs (JStr k))"
| "py_contains (JStr s) k = Return (substring k s)"
| "py_contains JNull k = Raise TypeError"
| "py_contains (JBool b) k = Raise TypeError"
| "py_contains (JInt i) k = Raise TypeError"

fun py_getitem :: "json \<Rightarrow> string \<Rightarrow> json result" where
  "py_getitem (JObj kvs) k = (case map_of kvs k of None \<Rightarrow> Raise (KeyError k) | Some v \<Rightarrow> Return v)"
| "py_getitem (JArr xs) k = Raise TypeError"
| "py_getitem (JStr s) k = Raise TypeError"
| "py_getitem JNull k = Raise TypeError"
| "py_getitem (JBool b) k = Raise TypeError"
| "py_getitem (JInt i) k = Raise TypeError"

fun py_setitem :: "json \<Rightarrow> string \<Rightarrow> json \<Rightarrow> json result" where
  "py_setitem (JObj kvs) k x = Return (JObj (AList.update k x kvs))"
| "py_setitem (JArr xs) k x = Raise TypeError"
| "py_setitem (JStr s) k x = Raise TypeError"
| "py_setitem JNull k x = Raise TypeError"
| "py_setitem (JBool b) k x = Raise TypeError"
| "py_setitem (JInt i) k x = Raise TypeError"

subsection \<open>Text and bytes\<close>

definition is_ascii :: "char \<Rightarrow> bool" where
  "is_ascii c = ((of_char c :: nat) < 128)"

text \<open>
  \<^verbatim>\<open>s.encode()\<close>: UTF-8. A code point below 128 is one byte, one from 128 to 255
  is two.
\<close>

definition utf8_char :: "char \<Rightarrow> bytes" where
  "utf8_char c =
     (if is_ascii c then [c]
      else [char_of (192 + (of_char c :: nat) div 64), char_of (128 + (of_char c :: nat) mod 64)])"

definition str_encode :: "string \<Rightarrow> bytes" where
  "str_encode s = concat (map utf8_char s)"

text \<open>
  \<^verbatim>\<open>b.decode()\<close>: UTF-8. ASCII bytes decode to the same characters; the script decodes
  only what \<^verbatim>\<open>base64.b64encode\<close> returned, so multi-byte sequences are not covered.
\<close>

definition bytes_decode :: "bytes \<Rightarrow> string result" where
  "bytes_decode b = (if list_all is_ascii b then Return b else Unmodelled)"

subsection \<open>The base64 module\<close>

text \<open>
  \<^verbatim>\<open>base64.b64encode\<close> and \<^verbatim>\<open>base64.b64decode\<close> of the standard library, with the
  alphabet of RFC 4648. The decoder is the non-strict one of \<^verbatim>\<open>binascii.a2b_base64\<close>:
  it skips every character outside the alphabet, stops at the padding that completes a
  group, and raises \<^verbatim>\<open>binascii.Error\<close> when the data characters do not fill their last
  group. Given a \<^verbatim>\<open>str\<close> with a character that is not ASCII, \<^verbatim>\<open>b64decode\<close> raises a plain
  \<^verbatim>\<open>ValueError\<close>.
\<close>

definition b64_alphabet :: string where
  "b64_alphabet = ''ABCDEFGHIJKLMNOPQRSTUVWXYZabcdefghijklmnopqrstuvwxyz0123456789+/''"

definition b64_char :: "nat \<Rightarrow> char" where
  "b64_char n = b64_alphabet ! n"

definition b64_value :: "char \<Rightarrow> nat option" where
  "b64_value c = map_of (zip b64_alphabet [0..<64]) c"

fun b64encode :: "bytes \<Rightarrow> bytes" where
  "b64encode [] = []"
| "b64encode [a] =
     [b64_char (of_char a div 4), b64_char (of_char a mod 4 * 16), CHR ''='', CHR ''='']"
| "b64encode [a, b] =
     [b64_char (of_char a div 4), b64_char (of_char a mod 4 * 16 + of_char b div 16),
      b64_char (of_char b mod 16 * 4), CHR ''='']"
| "b64encode (a # b # c # rest) =
     [b64_char (of_char a div 4), b64_char (of_char a mod 4 * 16 + of_char b div 16),
      b64_char (of_char b mod 16 * 4 + of_char c div 64), b64_char (of_char c mod 64)]
     @ b64encode rest"

text \<open>
  The decoder's loop: \<open>quad\<close> is the position in the current group of four, \<open>left\<close> the
  bits left over from the characters read, \<open>pads\<close> the padding characters seen since the
  last data character, \<open>out\<close> the bytes produced.
\<close>

fun a2b_loop :: "string \<Rightarrow> nat \<Rightarrow> nat \<Rightarrow> nat \<Rightarrow> bytes \<Rightarrow> bytes result" where
  "a2b_loop [] quad left pads out =
     (if quad = 0 then Return out else Raise BinasciiError)"
| "a2b_loop (c # cs) quad left pads out =
     (if c = CHR ''='' then
        (if 2 \<le> quad \<and> 4 \<le> quad + (pads + 1) then Return out
         else a2b_loop cs quad left (if 2 \<le> quad then pads + 1 else pads) out)
      else
        (case b64_value c of
           None \<Rightarrow> a2b_loop cs quad left pads out
         | Some v \<Rightarrow>
             (if quad = 0 then a2b_loop cs 1 v 0 out
              else if quad = 1 then
                a2b_loop cs 2 (v mod 16) 0 (out @ [char_of (left * 4 + v div 16)])
              else if quad = 2 then
                a2b_loop cs 3 (v mod 4) 0 (out @ [char_of (left * 16 + v div 4)])
              else a2b_loop cs 0 0 0 (out @ [char_of (left * 64 + v)]))))"

definition b64decode :: "string \<Rightarrow> bytes result" where
  "b64decode s =
     (if list_all is_ascii s then a2b_loop s 0 0 0 [] else Raise ValueError)"

subsection \<open>The file system, the console and the libraries\<close>

text \<open>
  The script works in a fixed layout: \<^verbatim>\<open>./packages/<name>/manifest.json\<close>,
  \<^verbatim>\<open>./packages/<name>/source/**\<close> and the flat directory \<^verbatim>\<open>./pool\<close>. Directory listings
  (\<^verbatim>\<open>os.scandir\<close>, \<^verbatim>\<open>os.walk\<close>) come in the order of the lists below. Every regular file
  is readable text. A console line is a string, or the line \<^verbatim>\<open>Error: ...\<close> that prints
  an exception.
\<close>

datatype node = TextFile string | Directory

datatype line = Line string | ErrorLine exn

record package_src =
  manifest_file :: "node option"
  sources :: "(string \<times> string) list"

record world =
  packages_dir :: "(string \<times> package_src) list"
  pool_dir :: "(string \<times> node) list"
  stdout :: "line list"

text \<open>
  The library functions the script calls and this development leaves open: \<^verbatim>\<open>json.load\<close>
  and \<^verbatim>\<open>json.loads\<close> on text, \<^verbatim>\<open>json.loads\<close> on bytes, \<^verbatim>\<open>json.dumps\<close>,
  \<^verbatim>\<open>zlib.compress\<close> at level 9, \<^verbatim>\<open>zlib.decompress\<close> and
  \<^verbatim>\<open>hashlib.sha256(...).hexdigest()\<close>.
\<close>

record libs =
  json_load :: "string \<Rightarrow> exn + json"
  json_loads_bytes :: "bytes \<Rightarrow> exn + json"
  json_dumps :: "json \<Rightarrow> string"
  zlib_compress :: "bytes \<Rightarrow> bytes"
  zlib_decompress :: "bytes \<Rightarrow> exn + bytes"
  sha256_hexdigest :: "bytes \<Rightarrow> string"

definition print :: "string \<Rightarrow> world \<Rightarrow> world" where
  "print s w = w\<lparr>stdout := stdout w @ [Line s]\<rparr>"

text \<open>Sequencing of a step that may raise with the rest of a function body.\<close>

definition then_do ::
  "'a result \<times> world \<Rightarrow> ('a \<Rightarrow> world \<Rightarrow> 'b result \<times> world) \<Rightarrow> 'b result \<times> world" where
  "then_do m f =
     (case m of
        (Return x, w) \<Rightarrow> f x w
      | (Raise e, w) \<Rightarrow> (Raise e, w)
      | (Unmodelled, w) \<Rightarrow> (Unmodelled, w))"

definition MANIFEST_FIELDS :: "string list" where
  "MANIFEST_FIELDS =
     [''description'', ''license'', ''authors'', ''maintainers'', ''version'', ''dependencies'']"

definition INDEX_FILE :: string where
  "INDEX_FILE = ''index.json''"

text \<open>
  Opening a file of the pool. A name with a NUL character raises \<^verbatim>\<open>ValueError\<close>; a name
  with a directory separator points below the pool, which is flat here.
\<close>

definition pool_read :: "world \<Rightarrow> string \<Rightarrow> string result" where
  "pool_read w fname =
     (if CHR 0x00 \<in> set fname then Raise ValueError
      else if CHR ''/'' \<in> set fname then Unmodelled
      else (case map_of (pool_dir w) fname of
              None \<Rightarrow> Raise FileNotFoundError
            | Some Directory \<Rightarrow> Raise IsADirectoryError
            | Some (TextFile t) \<Rightarrow> Return t))"

definition pool_write :: "string \<Rightarrow> string \<Rightarrow> world \<Rightarrow> unit result \<times> world" where
  "pool_write fname t w =
     (if CHR 0x00 \<in> set fname then (Raise ValueError, w)
      else if CHR ''/'' \<in> set fname then (Unmodelled, w)
      else (case map_of (pool_dir w) fname of
              Some Directory \<Rightarrow> (Raise IsADirectoryError, w)
            | _ \<Rightarrow> (Return (), w\<lparr>pool_dir := AList.update fname (TextFile t) (pool_dir w)\<rparr>)))"

section \<open>The functions of the script\<close>

subsection \<open>Listings\<close>

definition get_source_packages :: "world \<Rightarrow> string list" where
  "get_source_packages w = map fst (packages_dir w)"

text \<open>
  \<^verbatim>\<open>name, version = entry.name[:-4].split(".", maxsplit=1)\<close>: with no dot in the stem the
  unpacking raises \<^verbatim>\<open>ValueError\<close>.
\<close>

definition split_entry :: "string \<Rightarrow> (string \<times> string) result" where
  "split_entry fname =
     (let stem = take (length fname - 4) fname in
      if CHR ''.'' \<in> set stem
      then Return (takeWhile (\<lambda>c. c \<noteq> CHR ''.'') stem, tl (dropWhile (\<lambda>c. c \<noteq> CHR ''.'') stem))
      else Raise ValueError)"

fun group_entries ::
  "string list \<Rightarrow> (string \<times> string list) list \<Rightarrow> (string \<times> string list) list result" where
  "group_entries [] rtn = Return rtn"
| "group_entries (fname # entries) rtn =
     (case split_entry fname of
        Return (name, version) \<Rightarrow>
          group_entries entries
            (case map_of rtn name of
               Some versions \<Rightarrow> AList.update name (versions @ [version]) rtn
             | None \<Rightarrow> AList.update name [version] rtn)
      | Raise e \<Rightarrow> Raise e
      | Unmodelled \<Rightarrow> Unmodelled)"

definition get_built_packages :: "world \<Rightarrow> (string \<times> string list) list result" where
  "get_built_packages w =
     group_entries
       (map fst (filter (\<lambda>entry. fst entry \<noteq> INDEX_FILE \<and> snd entry \<noteq> Directory) (pool_dir w))) []"

definition get_package_files :: "world \<Rightarrow> string \<Rightarrow> string list" where
  "get_package_files w name =
     (case map_of (packages_dir w) name of
        None \<Rightarrow> []
      | Some p \<Rightarrow> map fst (sources p))"

subsection \<open>Manifest loader\<close>

definition open_manifest :: "world \<Rightarrow> string \<Rightarrow> string result" where
  "open_manifest w name =
     (case map_of (packages_dir w) name of
        None \<Rightarrow> Raise FileNotFoundError
      | Some p \<Rightarrow>
          (case manifest_file p of
             None \<Rightarrow> Raise FileNotFoundError
           | Some Directory \<Rightarrow> Raise IsADirectoryError
           | Some (TextFile t) \<Rightarrow> Return t))"

fun check_fields :: "json \<Rightarrow> string list \<Rightarrow> world \<Rightarrow> unit result \<times> world" where
  "check_fields manifest [] w = (Return (), w)"
| "check_fields manifest (key # keys) w =
     (case py_contains manifest key of
        Return present \<Rightarrow>
          check_fields manifest keys
            (if present then w
             else print (''[!] Package manifest is incomplete (missing '' @ [CHR 0x27] @ key
                           @ [CHR 0x27] @ '')'') w)
      | Raise e \<Rightarrow> (Raise e, w)
      | Unmodelled \<Rightarrow> (Unmodelled, w))"

text \<open>The \<^verbatim>\<open>except\<close> clauses of \<^verbatim>\<open>get_manifest\<close>; any other exception goes on.\<close>

fun manifest_handler :: "exn \<Rightarrow> world \<Rightarrow> json option result \<times> world" where
  "manifest_handler FileNotFoundError w =
     (Return None, print ''[!] Package is invalid (no manifest)'' w)"
| "manifest_handler JSONDecodeError w =
     (Return None, print ''[!] Package is invalid (unreadable manifest)'' w)"
| "manifest_handler e w = (Raise e, w)"

definition get_manifest :: "libs \<Rightarrow> string \<Rightarrow> world \<Rightarrow> json option result \<times> world" where
  "get_manifest L name w =
     (let w1 = print ''[i] Reading manifest'' w in
      case and_then (open_manifest w1 name) (\<lambda>t. of_lib (json_load L t)) of
        Return manifest \<Rightarrow>
          (case check_fields manifest MANIFEST_FIELDS w1 of
             (Return u, w2) \<Rightarrow> (Return (Some manifest), w2)
           | (Raise e, w2) \<Rightarrow> manifest_handler e w2
           | (Unmodelled, w2) \<Rightarrow> (Unmodelled, w2))
      | Raise e \<Rightarrow> manifest_handler e w1
      | Unmodelled \<Rightarrow> (Unmodelled, w1))"

subsection \<open>Archive builder\<close>

definition read_source :: "world \<Rightarrow> string \<Rightarrow> string \<Rightarrow> string result" where
  "read_source w name path =
     (case map_of (packages_dir w) name of
        None \<Rightarrow> Raise FileNotFoundError
      | Some p \<Rightarrow>
          (case map_of (sources p) path of
             None \<Rightarrow> Raise FileNotFoundError
           | Some content \<Rightarrow> Return content))"

definition file_entry :: "libs \<Rightarrow> string \<Rightarrow> json" where
  "file_entry L content =
     JObj [(''content'', JStr content),
           (''digest'', JStr (sha256_hexdigest L (str_encode content)))]"

text \<open>
  \<^verbatim>\<open>manifest["files"][path] = {...}\<close> changes the inner dictionary in place; here the
  changed dictionary is stored back under its key.
\<close>

definition set_file :: "json \<Rightarrow> string \<Rightarrow> json \<Rightarrow> json result" where
  "set_file manifest path entry =
     and_then (py_getitem manifest ''files'') (\<lambda>files.
     and_then (py_setitem files path entry) (\<lambda>files'.
     py_setitem manifest ''files'' files'))"

fun add_files :: "libs \<Rightarrow> string \<Rightarrow> string list \<Rightarrow> json \<Rightarrow> world \<Rightarrow> json result \<times> world" where
  "add_files L name [] manifest w = (Return manifest, w)"
| "add_files L name (path # paths) manifest w =
     (let w1 = print (''[+] '' @ path) w in
      case and_then (read_source w1 name path)
             (\<lambda>content. set_file manifest path (file_entry L content)) of
        Return manifest' \<Rightarrow> add_files L name paths manifest' w1
      | Raise e \<Rightarrow> (Raise e, w1)
      | Unmodelled \<Rightarrow> (Unmodelled, w1))"

definition build_package :: "libs \<Rightarrow> string \<Rightarrow> world \<Rightarrow> json option result \<times> world" where
  "build_package L name w =
     then_do (get_manifest L name w) (\<lambda>manifest w1.
       case manifest of
         None \<Rightarrow> (Return None, w1)
       | Some m \<Rightarrow>
           then_do (py_setitem m ''files'' (JObj []), w1) (\<lambda>m1 w2.
           then_do (add_files L name (get_package_files w2 name) m1 w2) (\<lambda>package w3.
           (Return (Some package), w3))))"

subsection \<open>Archive codec, pool writer and reader\<close>

text \<open>The file name \<^verbatim>\<open>{name}.{version}.ccp\<close> of an archive in the pool.\<close>

definition archive_name :: "string \<Rightarrow> string \<Rightarrow> string" where
  "archive_name name version = name @ ''.'' @ version @ ''.ccp''"

definition compress :: "libs \<Rightarrow> json \<Rightarrow> bytes" where
  "compress L package = b64encode (zlib_compress L (str_encode (json_dumps L package)))"

text \<open>
  The string a format field gives for \<^verbatim>\<open>package['version']\<close>, which is also the key
  of the version in the index. Only string versions are covered.
\<close>

fun version_string :: "json \<Rightarrow> string result" where
  "version_string (JStr s) = Return s"
| "version_string v = Unmodelled"

definition build_and_write_package ::
  "libs \<Rightarrow> string \<Rightarrow> world \<Rightarrow> (json \<times> string) option result \<times> world" where
  "build_and_write_package L name w =
     then_do (build_package L name (print (''Packaging '' @ name) w)) (\<lambda>package w1.
       case package of
         None \<Rightarrow> (Return None, w1)
       | Some p \<Rightarrow>
           (let data = compress L p in
            then_do (and_then (py_getitem p ''version'') version_string, w1) (\<lambda>version w2.
            then_do (bytes_decode data, w2) (\<lambda>t w3.
            then_do (pool_write (archive_name name version) t w3) (\<lambda>u w4.
            (Return (Some (p, sha256_hexdigest L data)), w4))))))"

text \<open>\<^verbatim>\<open>json.loads(zlib.decompress(base64.b64decode(data)))\<close>, line 148.\<close>

definition decode_archive :: "libs \<Rightarrow> string \<Rightarrow> json result" where
  "decode_archive L data =
     and_then (b64decode data) (\<lambda>z.
     and_then (of_lib (zlib_decompress L z)) (\<lambda>j.
     of_lib (json_loads_bytes L j)))"

text \<open>The \<^verbatim>\<open>except\<close> clauses of \<^verbatim>\<open>read_package\<close>; any other exception goes on.\<close>

fun read_handler :: "string \<Rightarrow> exn \<Rightarrow> world \<Rightarrow> (json \<times> string) option result \<times> world" where
  "read_handler version FileNotFoundError w =
     (Return None, print (''[!] Version '' @ version @ '' not found'') w)"
| "read_handler version JSONDecodeError w =
     (Return None, print (''[!] Version '' @ version @ '' is invalid (no manifest)'') w)"
| "read_handler version ZlibError w =
     (Return None, print (''[!] Version '' @ version @ '' is invalid (corrupted)'') w)"
| "read_handler version BinasciiError w =
     (Return None, print (''[!] Version '' @ version @ '' is invalid (corrupted)'') w)"
| "read_handler version e w = (Raise e, w)"

definition read_package ::
  "libs \<Rightarrow> string \<Rightarrow> string \<Rightarrow> world \<Rightarrow> (json \<times> string) option result \<times> world" where
  "read_package L name version w =
     (case and_then (pool_read w (archive_name name version)) (\<lambda>data.
           and_then (decode_archive L data) (\<lambda>manifest.
           Return (manifest, sha256_hexdigest L (str_encode data)))) of
        Return package \<Rightarrow> (Return (Some package), w)
      | Raise e \<Rightarrow> read_handler version e w
      | Unmodelled \<Rightarrow> (Unmodelled, w))"

subsection \<open>Index reconciler\<close>

definition new_entry :: json where
  "new_entry =
     JObj [(''description'', JStr ''''), (''versions'', JObj []), (''latest_version'', JStr '''')]"

text \<open>
  The upsert both loops carry out (lines 177 to 189 and 216 to 228), in the order
  Python evaluates it: the right-hand side of an assignment before its target.
  \<open>version\<close> is the outcome of the expression that gives the version: the loop variable
  in repair mode, \<^verbatim>\<open>package["manifest"]["version"]\<close> in build mode. The entry of the
  package is changed in place by Python; here it is stored back under its name.
\<close>

definition index_upsert ::
  "json \<Rightarrow> string \<Rightarrow> json \<Rightarrow> string result \<Rightarrow> string \<Rightarrow> json result" where
  "index_upsert packages name manifest version digest =
     and_then (py_contains packages name) (\<lambda>present.
     and_then (if present then Return packages else py_setitem packages name new_entry) (\<lambda>packages1.
     and_then (py_getitem manifest ''description'') (\<lambda>description.
     and_then (py_getitem packages1 name) (\<lambda>entry.
     and_then (py_setitem entry ''description'' description) (\<lambda>entry1.
     and_then (py_getitem manifest ''dependencies'') (\<lambda>dependencies.
     and_then (py_getitem entry1 ''versions'') (\<lambda>versions.
     and_then version (\<lambda>v.
     and_then (py_setitem versions v
                 (JObj [(''digest'', JStr digest), (''dependencies'', dependencies)])) (\<lambda>versions1.
     and_then (py_setitem entry1 ''versions'' versions1) (\<lambda>entry2.
     and_then (py_setitem entry2 ''latest_version'' (JStr v)) (\<lambda>entry3.
     py_setitem packages1 name entry3)))))))))))"

fun index_versions ::
  "libs \<Rightarrow> string \<Rightarrow> string list \<Rightarrow> json \<Rightarrow> world \<Rightarrow> json result \<times> world" where
  "index_versions L name [] packages w = (Return packages, w)"
| "index_versions L name (version # versions) packages w =
     (case read_package L name version w of
        (Return None, w1) \<Rightarrow> index_versions L name versions packages w1
      | (Return (Some (manifest, digest)), w1) \<Rightarrow>
          (let w2 = print (''[+] Version '' @ version) w1 in
           case index_upsert packages name manifest (Return version) digest of
             Return packages1 \<Rightarrow> index_versions L name versions packages1 w2
           | Raise e \<Rightarrow> (Raise e, w2)
           | Unmodelled \<Rightarrow> (Unmodelled, w2))
      | (Raise e, w1) \<Rightarrow> (Raise e, w1)
      | (Unmodelled, w1) \<Rightarrow> (Unmodelled, w1))"

fun index_packages ::
  "libs \<Rightarrow> (string \<times> string list) list \<Rightarrow> json \<Rightarrow> world \<Rightarrow> json result \<times> world" where
  "index_packages L [] packages w = (Return packages, w)"
| "index_packages L ((name, versions) # built) packages w =
     (case index_versions L name versions packages (print (''Indexing '' @ name) w) of
        (Return packages1, w1) \<Rightarrow> index_packages L built packages1 w1
      | (Raise e, w1) \<Rightarrow> (Raise e, w1)
      | (Unmodelled, w1) \<Rightarrow> (Unmodelled, w1))"

definition repair_package_index :: "libs \<Rightarrow> world \<Rightarrow> json result \<times> world" where
  "repair_package_index L w =
     (case get_built_packages w of
        Return built \<Rightarrow> index_packages L built (JObj []) w
      | Raise e \<Rightarrow> (Raise e, w)
      | Unmodelled \<Rightarrow> (Unmodelled, w))"

subsection \<open>The script\<close>

definition load_index :: "libs \<Rightarrow> world \<Rightarrow> json result" where
  "load_index L w =
     (case map_of (pool_dir w) INDEX_FILE of
        None \<Rightarrow> Return (JObj [])
      | Some Directory \<Rightarrow> Raise IsADirectoryError
      | Some (TextFile t) \<Rightarrow> of_lib (json_load L t))"

fun build_packages ::
  "libs \<Rightarrow> string list \<Rightarrow> json \<Rightarrow> world \<Rightarrow> json result \<times> world" where
  "build_packages L [] packages w = (Return packages, w)"
| "build_packages L (name # names) packages w =
     (case build_and_write_package L name w of
        (Return None, w1) \<Rightarrow> build_packages L names packages w1
      | (Return (Some (manifest, digest)), w1) \<Rightarrow>
          (case index_upsert packages name manifest
                  (and_then (py_getitem manifest ''version'') version_string) digest of
             Return packages1 \<Rightarrow> build_packages L names packages1 w1
           | Raise e \<Rightarrow> (Raise e, w1)
           | Unmodelled \<Rightarrow> (Unmodelled, w1))
      | (Raise e, w1) \<Rightarrow> (Raise e, w1)
      | (Unmodelled, w1) \<Rightarrow> (Unmodelled, w1))"

text \<open>The body of the \<^verbatim>\<open>try\<close> of the script in build mode.\<close>

definition build_index :: "libs \<Rightarrow> world \<Rightarrow> json result \<times> world" where
  "build_index L w =
     (case load_index L w of
        Return packages \<Rightarrow> build_packages L (get_source_packages w) packages w
      | Raise e \<Rightarrow> (Raise e, w)
      | Unmodelled \<Rightarrow> (Unmodelled, w))"

datatype status = Exit nat | OutsideModel

text \<open>
  The script: \<open>repair\<close> is the flag \<^verbatim>\<open>--repair\<close>. An exception of the \<^verbatim>\<open>try\<close> prints the
  error and the hint and exits with 1. The index is written after the \<^verbatim>\<open>try\<close>; an
  exception there is not caught, and Python ends with status 1.
\<close>

definition main :: "libs \<Rightarrow> bool \<Rightarrow> world \<Rightarrow> status \<times> world" where
  "main L repair w =
     (case (if repair then repair_package_index L w else build_index L w) of
        (Return packages, w1) \<Rightarrow>
          (case pool_write INDEX_FILE (json_dumps L packages) (print ''Writing index'' w1) of
             (Return u, w2) \<Rightarrow> (Exit 0, w2)
           | (Raise e, w2) \<Rightarrow> (Exit 1, w2)
           | (Unmodelled, w2) \<Rightarrow> (OutsideModel, w2))
      | (Raise e, w1) \<Rightarrow>
          (Exit 1,
           print ''You can try to repair the package index using the --repair option.''
             (w1\<lparr>stdout := stdout w1 @ [ErrorLine e]\<rparr>))
      | (Unmodelled, w1) \<Rightarrow> (OutsideModel, w1))"

section \<open>How a function leaves the world\<close>

text \<open>
  Two relations between the world before and after a step, for the proofs.
  \<open>only_printed\<close>: the step has printed lines and changed no file. \<open>archives_written\<close>:
  the step has printed lines and written archive files, each a text file with a name
  ending in \<^verbatim>\<open>.ccp\<close>, over no directory.
\<close>

definition only_printed :: "world \<Rightarrow> world \<Rightarrow> bool" where
  "only_printed w w' =
     (packages_dir w' = packages_dir w \<and> pool_dir w' = pool_dir w \<and>
      (\<exists>ls. stdout w' = stdout w @ ls))"

definition archives_written :: "world \<Rightarrow> world \<Rightarrow> bool" where
  "archives_written w w' =
     (packages_dir w' = packages_dir w \<and> (\<exists>ls. stdout w' = stdout w @ ls) \<and>
      (\<forall>f. map_of (pool_dir w') f = map_of (pool_dir w) f \<or>
           ((\<exists>s. f = s @ ''.ccp'') \<and> (\<exists>t. map_of (pool_dir w') f = Some (TextFile t)) \<and>
            map_of (pool_dir w) f \<noteq> Some Directory)))"

section \<open>Well-formed inputs\<close>

text \<open>
  \<open>index_ok\<close>: the shape of an index the script has written: an object whose entries
  are objects with an object under \<^verbatim>\<open>versions\<close>. \<open>builds\<close>: the package has a manifest
  file that parses to an object with a string \<^verbatim>\<open>version\<close>, a \<^verbatim>\<open>description\<close> and
  \<^verbatim>\<open>dependencies\<close>, and its archive name is a plain file name that no directory of the
  pool bears.
\<close>

fun entry_ok :: "json \<Rightarrow> bool" where
  "entry_ok (JObj kvs) = (case map_of kvs ''versions'' of Some (JObj vs) \<Rightarrow> True | _ \<Rightarrow> False)"
| "entry_ok v = False"

fun index_ok :: "json \<Rightarrow> bool" where
  "index_ok (JObj ps) = list_all (\<lambda>p. entry_ok (snd p)) ps"
| "index_ok v = False"

definition builds :: "libs \<Rightarrow> world \<Rightarrow> string \<Rightarrow> bool" where
  "builds L w name =
     (case map_of (packages_dir w) name of
        None \<Rightarrow> False
      | Some p \<Rightarrow>
          (case manifest_file p of
             Some (TextFile t) \<Rightarrow>
               (case json_load L t of
                  Inr (JObj kvs) \<Rightarrow>
                    (case map_of kvs ''version'' of
                       Some (JStr v) \<Rightarrow>
                         map_of kvs ''description'' \<noteq> None \<and>
                         map_of kvs ''dependencies'' \<noteq> None \<and>
                         CHR 0x00 \<notin> set (archive_name name v) \<and>
                         CHR ''/'' \<notin> set (archive_name name v) \<and>
                         map_of (pool_dir w) (archive_name name v) \<noteq> Some Directory
                     | _ \<Rightarrow> False)
                | _ \<Rightarrow> False)
           | _ \<Rightarrow> False))"

text \<open>The entries of the pool bear file names: no \<^verbatim>\<open>/\<close> and no NUL in them.\<close>

definition pool_names_ok :: "world \<Rightarrow> bool" where
  "pool_names_ok w =
     list_all (\<lambda>entry. CHR ''/'' \<notin> set (fst entry) \<and> CHR 0x00 \<notin> set (fst entry)) (pool_dir w)"

section \<open>Reading the index\<close>

text \<open>
  \<open>latest_version packages name\<close> is \<^verbatim>\<open>packages[name]["latest_version"]\<close>.
  \<open>indexed_versions L w name versions\<close> are the versions of the listing, in its order,
  whose archive \<^verbatim>\<open>read_package\<close> does not skip on the pool of \<open>w\<close>.
\<close>

definition latest_version :: "json \<Rightarrow> string \<Rightarrow> json result" where
  "latest_version packages name =
     and_then (py_getitem packages name) (\<lambda>entry. py_getitem entry ''latest_version'')"

definition indexed_versions :: "libs \<Rightarrow> world \<Rightarrow> string \<Rightarrow> string list \<Rightarrow> string list" where
  "indexed_versions L w name versions =
     filter (\<lambda>version. fst (read_package L name version w) \<noteq> Return None) versions"

section \<open>Example inputs\<close>

text \<open>
  Libraries given by finite tables: what the library functions return at the arguments
  that occur in the example runs below, as Python 3.11 computes them. Outside its table a
  parser raises \<^verbatim>\<open>JSONDecodeError\<close>, the decompressor raises \<^verbatim>\<open>zlib.error\<close>, and the other
  functions return the empty string.
\<close>

definition table_libs ::
  "(string \<times> json) list \<Rightarrow> (json \<times> string) list \<Rightarrow> (bytes \<times> bytes) list \<Rightarrow>
   (bytes \<times> string) list \<Rightarrow> libs" where
  "table_libs parses dumps deflates digests =
     \<lparr>json_load = (\<lambda>t. case map_of parses t of Some v \<Rightarrow> Inr v | None \<Rightarrow> Inl JSONDecodeError),
      json_loads_bytes =
        (\<lambda>b. case map_of parses b of Some v \<Rightarrow> Inr v | None \<Rightarrow> Inl JSONDecodeError),
      json_dumps = (\<lambda>v. case map_of dumps v of Some t \<Rightarrow> t | None \<Rightarrow> []),
      zlib_compress = (\<lambda>b. case map_of deflates b of Some z \<Rightarrow> z | None \<Rightarrow> []),
      zlib_decompress =
        (\<lambda>z. case map_of (map (\<lambda>(b, z). (z, b)) deflates) z of
               Some b \<Rightarrow> Inr b
             | None \<Rightarrow> Inl ZlibError),
      sha256_hexdigest = (\<lambda>b. case map_of digests b of Some d \<Rightarrow> d | None \<Rightarrow> [])\<rparr>"

text \<open>
  The package \<^verbatim>\<open>foo\<close>: a manifest with version, dependencies and description, and one
  source file \<^verbatim>\<open>a.txt\<close> holding \<^verbatim>\<open>hello\<close>. \<open>foo_record\<close> is its package record,
  \<open>foo_dumped\<close> the JSON text of the record, \<open>foo_deflated\<close> the compressed bytes,
  \<open>foo_archive\<close> their base64 text and \<open>foo_digest\<close> the SHA-256 of that text.
\<close>

definition foo_manifest_text :: string where
  \<open>foo_manifest_text = ''{"version":"1.0","dependencies":[],"description":"d"}''\<close>

definition foo_manifest :: json where
  "foo_manifest = JObj [(''version'', JStr ''1.0''), (''dependencies'', JArr []), (''description'',
     JStr ''d'')]"

definition hello_digest :: string where
  "hello_digest = ''2cf24dba5fb0a30e26e83b2ac5b9e29e1b161e5c1fa7425e73043362938b9824''"

definition foo_record :: json where
  "foo_record = JObj [(''version'', JStr ''1.0''), (''dependencies'', JArr []), (''description'',
     JStr ''d''), (''files'', JObj [(''a.txt'', JObj [(''content'', JStr ''hello''),
     (''digest'', JStr hello_digest)])])]"

definition foo_dumped :: string where
  \<open>foo_dumped = ''{"version": "1.0", "dependencies": [], "description": "d", "files": {"a.txt": {"content": "hello", "digest": "2cf24dba5fb0a30e26e83b2ac5b9e29e1b161e5c1fa7425e73043362938b9824"}}}''\<close>

definition foo_deflated :: bytes where
  "foo_deflated = [CHR 0x78, CHR 0xDA, CHR 0x2D, CHR 0x8C, CHR 0x4D, CHR 0x0A, CHR 0x83, CHR 0x30, CHR 0x14,
     CHR 0x06, CHR 0xAF, CHR 0x52, CHR 0xDE, CHR 0xBA, CHR 0x48, CHR 0xF2, CHR 0x62,
     CHR 0xD4, CHR 0xF4, CHR 0x2A, CHR 0xA5, CHR 0x8B, CHR 0xFC, CHR 0x7C, CHR 0x69,
     CHR 0x03, CHR 0x12, CHR 0xC5, CHR 0x84, CHR 0x52, CHR 0x10, CHR 0xEF, CHR 0xDE,
     CHR 0x1A, CHR 0xBA, CHR 0x1B, CHR 0x86, CHR 0x61, CHR 0x76, CHR 0x7A, CHR 0x63,
     CHR 0x2B, CHR 0x69, CHR 0xC9, CHR 0x74, CHR 0xBB, CHR 0x90, CHR 0xEC, CHR 0x04,
     CHR 0x5D, CHR 0x2F, CHR 0x14, CHR 0xB0, CHR 0x22, CHR 0x07, CHR 0x64, CHR 0x9F,
     CHR 0x50, CHR 0x7E, CHR 0xFA, CHR 0xFE, CHR 0x68, CHR 0xAE, CHR 0xF8, CHR 0x2D,
     CHR 0xAD, CHR 0xF5, CHR 0x5F, CHR 0x86, CHR 0xB3, CHR 0x8B, CHR 0x69, CHR 0x6E,
     CHR 0xC1, CHR 0x4E, CHR 0xB6, CHR 0xAB, CHR 0x9F, CHR 0xDA, CHR 0xC8, CHR 0x2F,
     CHR 0xB9, CHR 0x22, CHR 0x9F, CHR 0x4C, CHR 0x2F, CHR 0xCC, CHR 0xF3, CHR 0xD2,
     CHR 0x7E, CHR 0xE9, CHR 0x89, CHR 0xD2, CHR 0x14, CHR 0xFB, CHR 0xC8, CHR 0x7D,
     CHR 0x70, CHR 0x56, CHR 0x47, CHR 0x27, CHR 0xAC, CHR 0x12, CHR 0xE0, CHR 0x01,
     CHR 0x93, CHR 0x72, CHR 0x6C, CHR 0xBD, CHR 0x76, CHR 0x06, CHR 0x6C, CHR 0x20,
     CHR 0x9D, CHR 0x1C, CHR 0x24, CHR 0xB4, CHR 0x97, CHR 0xD1, CHR 0x8E, CHR 0x3D,
     CHR 0x6B, CHR 0x8C, CHR 0x4A, CHR 0xF4, CHR 0x4A, CHR 0x0D, CHR 0x6C, CHR 0xD4,
     CHR 0xE4, CHR 0xCC, CHR 0xC4, CHR 0x3D, CHR 0x1D, CHR 0xC7, CHR 0xF1, CHR 0x05,
     CHR 0xED, CHR 0x80, CHR 0x34, CHR 0x8B]"

definition foo_archive :: string where
  "foo_archive = ''eNotjE0KgzAUBq9S3rpI8mLU9Cqli/x8aQMSxYRSEO/eGrobhmF2emMracl0u5DsBF0vFLAiB2SfUH76/miu+C2t9V+Gs4tpbsFOtquf2sgvuSKfTC/M89J+6YnSFPvIfXBWRyesEuABk3JsvXYGbCCdHCS0l9GOPWuMSvRKDWzU5MzEPR3H8QXtgDSL''"

definition foo_digest :: string where
  "foo_digest = ''cd3c52cc85837a61e427e2406d7646090e951b95170a6e25938d809795061123''"

definition foo_index :: json where
  "foo_index = JObj [(''foo'', JObj [(''description'', JStr ''d''), (''versions'', JObj [(''1.0'',
     JObj [(''digest'', JStr foo_digest), (''dependencies'', JArr [])])]),
     (''latest_version'', JStr ''1.0'')])]"

definition foo_index_text :: string where
  \<open>foo_index_text = ''{"foo": {"description": "d", "versions": {"1.0": {"digest": "cd3c52cc85837a61e427e2406d7646090e951b95170a6e25938d809795061123", "dependencies": []}}, "latest_version": "1.0"}}''\<close>

text \<open>
  The package \<^verbatim>\<open>nov\<close>: its manifest has a description and dependencies and no version;
  it has no source files.
\<close>

definition nov_manifest_text :: string where
  \<open>nov_manifest_text = ''{"description":"d","dependencies":[]}''\<close>

definition nov_manifest :: json where
  "nov_manifest = JObj [(''description'', JStr ''d''), (''dependencies'', JArr [])]"

definition nov_record :: json where
  "nov_record = JObj [(''description'', JStr ''d''), (''dependencies'', JArr []), (''files'', JObj [])]"

definition nov_dumped :: string where
  \<open>nov_dumped = ''{"description": "d", "dependencies": [], "files": {}}''\<close>

definition nov_deflated :: bytes where
  "nov_deflated = [CHR 0x78, CHR 0xDA, CHR 0xAB, CHR 0x56, CHR 0x4A, CHR 0x49, CHR 0x2D, CHR 0x4E, CHR 0x2E,
     CHR 0xCA, CHR 0x2C, CHR 0x28, CHR 0xC9, CHR 0xCC, CHR 0xCF, CHR 0x53, CHR 0xB2,
     CHR 0x52, CHR 0x50, CHR 0x4A, CHR 0x51, CHR 0xD2, CHR 0x01, CHR 0x12, CHR 0xA9,
     CHR 0x05, CHR 0xA9, CHR 0x79, CHR 0x29, CHR 0xA9, CHR 0x79, CHR 0xC9, CHR 0x99,
     CHR 0xA9, CHR 0xC5, CHR 0x40, CHR 0xC1, CHR 0xE8, CHR 0x58, CHR 0xA0, CHR 0x58,
     CHR 0x5A, CHR 0x66, CHR 0x0E, CHR 0x98, CHR 0x53, CHR 0x5D, CHR 0x5B, CHR 0x0B,
     CHR 0x00, CHR 0xDC, CHR 0xB2, CHR 0x11, CHR 0x61]"

text \<open>
  The package \<^verbatim>\<open>ext\<close>: its manifest has the keys \<^verbatim>\<open>homepage\<close> and \<^verbatim>\<open>files\<close> besides the
  recognized ones; it has no source files.
\<close>

definition ext_manifest_text :: string where
  \<open>ext_manifest_text = ''{"version":"1.0","dependencies":[],"description":"d","homepage":"h","files":"mine"}''\<close>

definition ext_manifest :: json where
  "ext_manifest = JObj [(''version'', JStr ''1.0''), (''dependencies'', JArr []), (''description'',
     JStr ''d''), (''homepage'', JStr ''h''), (''files'', JStr ''mine'')]"

definition ext_record :: json where
  "ext_record = JObj [(''version'', JStr ''1.0''), (''dependencies'', JArr []), (''description'',
     JStr ''d''), (''homepage'', JStr ''h''), (''files'', JObj [])]"

definition ext_dumped :: string where
  \<open>ext_dumped = ''{"version": "1.0", "dependencies": [], "description": "d", "homepage": "h", "files": {}}''\<close>

definition ext_deflated :: bytes where
  "ext_deflated = [CHR 0x78, CHR 0xDA, CHR 0xAB, CHR 0x56, CHR 0x2A, CHR 0x4B, CHR 0x2D, CHR 0x2A, CHR 0xCE,
     CHR 0xCC, CHR 0xCF, CHR 0x53, CHR 0xB2, CHR 0x52, CHR 0x50, CHR 0x32, CHR 0xD4,
     CHR 0x33, CHR 0x50, CHR 0xD2, CHR 0x51, CHR 0x50, CHR 0x4A, CHR 0x49, CHR 0x2D,
     CHR 0x48, CHR 0xCD, CHR 0x4B, CHR 0x49, CHR 0xCD, CHR 0x4B, CHR 0xCE, CHR 0x4C,
     CHR 0x2D, CHR 0x06, CHR 0x0A, CHR 0x47, CHR 0xC7, CHR 0x82, CHR 0xC5, CHR 0x8A,
     CHR 0x93, CHR 0x8B, CHR 0x32, CHR 0x0B, CHR 0x4A, CHR 0xA0, CHR 0x2A, CHR 0x53,
     CHR 0x40, CHR 0xEA, CHR 0x32, CHR 0xF2, CHR 0x73, CHR 0x53, CHR 0x0B, CHR 0x12,
     CHR 0xD3, CHR 0x53, CHR 0x41, CHR 0x02, CHR 0x19, CHR 0x20, CHR 0x81, CHR 0xB4,
     CHR 0xCC, CHR 0x1C, CHR 0xB0, CHR 0x8E, CHR 0xEA, CHR 0xDA, CHR 0x5A, CHR 0x00,
     CHR 0xB7, CHR 0x7E, CHR 0x1B, CHR 0x00]"

text \<open>
  An archive \<^verbatim>\<open>old.1.0.ccp\<close> whose record has a version and dependencies and no
  description.
\<close>

definition old_record :: json where
  "old_record = JObj [(''version'', JStr ''1.0''), (''dependencies'', JArr []), (''files'', JObj [])]"

definition old_dumped :: string where
  \<open>old_dumped = ''{"version": "1.0", "dependencies": [], "files": {}}''\<close>

definition old_deflated :: bytes where
  "old_deflated = [CHR 0x78, CHR 0xDA, CHR 0xAB, CHR 0x56, CHR 0x2A, CHR 0x4B, CHR 0x2D, CHR 0x2A, CHR 0xCE,
     CHR 0xCC, CHR 0xCF, CHR 0x53, CHR 0xB2, CHR 0x52, CHR 0x50, CHR 0x32, CHR 0xD4,
     CHR 0x33, CHR 0x50, CHR 0xD2, CHR 0x51, CHR 0x50, CHR 0x4A, CHR 0x49, CHR 0x2D,
     CHR 0x48, CHR 0xCD, CHR 0x4B, CHR 0x49, CHR 0xCD, CHR 0x4B, CHR 0xCE, CHR 0x4C,
     CHR 0x2D, CHR 0x06, CHR 0x0A, CHR 0x47, CHR 0xC7, CHR 0x02, CHR 0xC5, CHR 0xD2,
     CHR 0x32, CHR 0x73, CHR 0xC0, CHR 0x9C, CHR 0xEA, CHR 0xDA, CHR 0x5A, CHR 0x00,
     CHR 0x99, CHR 0x53, CHR 0x0F, CHR 0xEE]"

definition old_archive :: string where
  "old_archive = ''eNqrVipLLSrOzM9TslJQMtQzUNJRUEpJLUjNS0nNS85MLQYKR8cCxdIyc8Cc6tpaAJlTD+4=''"

text \<open>
  An index written by an earlier run, with the package \<^verbatim>\<open>alpha\<close>, and the index after
  \<^verbatim>\<open>foo\<close> has been built on top of it.
\<close>

definition prior_index :: json where
  "prior_index = JObj [(''alpha'', JObj [(''description'', JStr ''a''), (''versions'', JObj [(''0.9'',
     JObj [(''digest'',
     JStr ''8ed3f6ad685b959ead7022518e1af76cd816f8e8ec7ccdda1ed4018e8f2223f8''),
     (''dependencies'', JArr [])])]), (''latest_version'', JStr ''0.9'')])]"

definition prior_index_text :: string where
  \<open>prior_index_text = ''{"alpha": {"description": "a", "versions": {"0.9": {"digest": "8ed3f6ad685b959ead7022518e1af76cd816f8e8ec7ccdda1ed4018e8f2223f8", "dependencies": []}}, "latest_version": "0.9"}}''\<close>

definition merged_index :: json where
  "merged_index = JObj [(''alpha'', JObj [(''description'', JStr ''a''), (''versions'', JObj [(''0.9'',
     JObj [(''digest'',
     JStr ''8ed3f6ad685b959ead7022518e1af76cd816f8e8ec7ccdda1ed4018e8f2223f8''),
     (''dependencies'', JArr [])])]), (''latest_version'', JStr ''0.9'')]), (''foo'',
     JObj [(''description'', JStr ''d''), (''versions'', JObj [(''1.0'', JObj [(''digest'',
     JStr foo_digest), (''dependencies'', JArr [])])]), (''latest_version'',
     JStr ''1.0'')])]"

definition merged_index_text :: string where
  \<open>merged_index_text = ''{"alpha": {"description": "a", "versions": {"0.9": {"digest": "8ed3f6ad685b959ead7022518e1af76cd816f8e8ec7ccdda1ed4018e8f2223f8", "dependencies": []}}, "latest_version": "0.9"}, "foo": {"description": "d", "versions": {"1.0": {"digest": "cd3c52cc85837a61e427e2406d7646090e951b95170a6e25938d809795061123", "dependencies": []}}, "latest_version": "1.0"}}''\<close>

definition example_libs :: libs where
  "example_libs = table_libs
     [(foo_manifest_text, foo_manifest), (foo_dumped, foo_record), (foo_index_text, foo_index),
      (nov_manifest_text, nov_manifest), (ext_manifest_text, ext_manifest),
      (ext_dumped, ext_record), (old_dumped, old_record), (prior_index_text, prior_index),
      (merged_index_text, merged_index)]
     [(foo_record, foo_dumped), (foo_index, foo_index_text), (nov_record, nov_dumped),
      (ext_record, ext_dumped), (prior_index, prior_index_text),
      (merged_index, merged_index_text)]
     [(foo_dumped, foo_deflated), (nov_dumped, nov_deflated), (ext_dumped, ext_deflated),
      (old_dumped, old_deflated)]
     [(''hello'', hello_digest), (foo_archive, foo_digest)]"

text \<open>
  The worlds of the example runs. \<open>foo_world\<close>: the source tree holds \<^verbatim>\<open>foo\<close> and a
  package \<^verbatim>\<open>bar\<close> without a manifest, and the pool is empty. \<open>foo_world_built\<close>: the
  world after \<^verbatim>\<open>foo\<close> has been packaged. \<open>prior_world\<close>: as \<open>foo_world\<close>, with the earlier
  index in the pool. \<open>nov_world\<close> and \<open>ext_world\<close>: the source tree holds the one package.
  \<open>old_world\<close>: the pool holds the archive without a description. \<open>bad_world\<close>: the pool
  holds an archive file whose text is the one character U+00E9. \<open>junk_world\<close>: as
  \<open>foo_world\<close>, with an index file in the pool that is no JSON text.
\<close>

definition foo_world :: world where
  "foo_world =
     \<lparr>packages_dir =
        [(''foo'', \<lparr>manifest_file = Some (TextFile foo_manifest_text),
                     sources = [(''a.txt'', ''hello'')]\<rparr>),
         (''bar'', \<lparr>manifest_file = None, sources = []\<rparr>)],
      pool_dir = [], stdout = []\<rparr>"

definition foo_world_built :: world where
  "foo_world_built =
     foo_world\<lparr>pool_dir := [(''foo.1.0.ccp'', TextFile foo_archive)],
       stdout := [Line ''Packaging foo'', Line ''[i] Reading manifest'',
         Line ''[!] Package manifest is incomplete (missing 'license')'',
         Line ''[!] Package manifest is incomplete (missing 'authors')'',
         Line ''[!] Package manifest is incomplete (missing 'maintainers')'',
         Line ''[+] a.txt'']\<rparr>"

definition prior_world :: world where
  "prior_world = foo_world\<lparr>pool_dir := [(''index.json'', TextFile prior_index_text)]\<rparr>"

definition nov_world :: world where
  "nov_world =
     \<lparr>packages_dir = [(''nov'', \<lparr>manifest_file = Some (TextFile nov_manifest_text), sources = []\<rparr>)],
      pool_dir = [], stdout = []\<rparr>"

definition ext_world :: world where
  "ext_world =
     \<lparr>packages_dir = [(''ext'', \<lparr>manifest_file = Some (TextFile ext_manifest_text), sources = []\<rparr>)],
      pool_dir = [], stdout = []\<rparr>"

definition old_world :: world where
  "old_world =
     \<lparr>packages_dir = [], pool_dir = [(''old.1.0.ccp'', TextFile old_archive)], stdout = []\<rparr>"

definition junk_world :: world where
  "junk_world = foo_world\<lparr>pool_dir := [(''index.json'', TextFile ''{'')]\<rparr>"

definition bad_world :: world where
  "bad_world =
     \<lparr>packages_dir = [], pool_dir = [(''bad.1.0.ccp'', TextFile [CHR 0xE9])], stdout = []\<rparr>"

text \<open>
  Two versions of \<^verbatim>\<open>foo\<close>. \<open>foo2_record\<close> is the package record of \<^verbatim>\<open>foo\<close> at version
  2.0, with its JSON text, compressed bytes, archive text and digest. \<open>newer_index\<close> is
  the index a run that built version 2.0 wrote, and \<open>both_index\<close> the index that holds
  version 2.0 and, entered after it, version 1.0. \<open>two_world\<close>: the pool lists the archive
  of version 2.0 before the archive of version 1.0. \<open>newer_world\<close>: the source tree of
  \<open>foo_world\<close> (version 1.0) with \<open>newer_index\<close> in the pool.
\<close>

definition foo2_record :: json where
  "foo2_record = JObj [(''version'', JStr ''2.0''), (''dependencies'', JArr []), (''description'',
     JStr ''d''), (''files'', JObj [(''a.txt'', JObj [(''content'', JStr ''hello''),
     (''digest'', JStr hello_digest)])])]"

definition foo2_dumped :: string where
  \<open>foo2_dumped = ''{"version": "2.0", "dependencies": [], "description": "d", "files": {"a.txt": {"content": "hello", "digest": "2cf24dba5fb0a30e26e83b2ac5b9e29e1b161e5c1fa7425e73043362938b9824"}}}''\<close>

definition foo2_deflated :: bytes where
  "foo2_deflated = [CHR 0x78, CHR 0xDA, CHR 0x2D, CHR 0x8C, CHR 0x4D, CHR 0x0A, CHR 0x83, CHR 0x30, CHR 0x14,
     CHR 0x06, CHR 0xAF, CHR 0x52, CHR 0xDE, CHR 0xBA, CHR 0x48, CHR 0xF2, CHR 0x62,
     CHR 0xD4, CHR 0xF4, CHR 0x2A, CHR 0xA5, CHR 0x8B, CHR 0xFC, CHR 0x7C, CHR 0x69,
     CHR 0x03, CHR 0x12, CHR 0xC5, CHR 0x84, CHR 0x52, CHR 0x10, CHR 0xEF, CHR 0xDE,
     CHR 0x1A, CHR 0xBA, CHR 0x1B, CHR 0x86, CHR 0x61, CHR 0x76, CHR 0x7A, CHR 0x63,
     CHR 0x2B, CHR 0x69, CHR 0xC9, CHR 0x74, CHR 0xBB, CHR 0x10, CHR 0x77, CHR 0x82,
     CHR 0xAE, CHR 0x17, CHR 0x0A, CHR 0x58, CHR 0x91, CHR 0x03, CHR 0xB2, CHR 0x4F,
     CHR 0x28, CHR 0x3F, CHR 0x7D, CHR 0x7F, CHR 0x34, CHR 0x57, CHR 0xFC, CHR 0x96,
     CHR 0xD6, CHR 0xFA, CHR 0x2F, CHR 0xC3, CHR 0xD9, CHR 0xC5, CHR 0x34, CHR 0xB7,
     CHR 0x60, CHR 0x27, CHR 0xDB, CHR 0xD5, CHR 0x4F, CHR 0x6D, CHR 0xE4, CHR 0x97,
     CHR 0x5C, CHR 0x91, CHR 0x4F, CHR 0xA6, CHR 0x17, CHR 0xE6, CHR 0x79, CHR 0x69,
     CHR 0xBF, CHR 0xF4, CHR 0x44, CHR 0x69, CHR 0x8A, CHR 0x7D, CHR 0xE4, CHR 0x3E,
     CHR 0x38, CHR 0xAB, CHR 0xA3, CHR 0x13, CHR 0x56, CHR 0x09, CHR 0xF0, CHR 0x80,
     CHR 0x49, CHR 0x39, CHR 0xB6, CHR 0x5E, CHR 0x3B, CHR 0x03, CHR 0x36, CHR 0x90,
     CHR 0x4E, CHR 0x0E, CHR 0x12, CHR 0xDA, CHR 0xCB, CHR 0x68, CHR 0xC7, CHR 0x9E,
     CHR 0x35, CHR 0x46, CHR 0x25, CHR 0x7A, CHR 0xA5, CHR 0x06, CHR 0x36, CHR 0x6A,
     CHR 0x72, CHR 0x66, CHR 0xE2, CHR 0x9E, CHR 0x8E, CHR 0xE3, CHR 0xF8, CHR 0x02,
     CHR 0xEE, CHR 0x25, CHR 0x34, CHR 0x8C]"

definition foo2_archive :: string where
  "foo2_archive = ''eNotjE0KgzAUBq9S3rpI8mLU9Cqli/x8aQMSxYRSEO/eGrobhmF2emMracl0uxB3gq4XCliRA7JPKD99fzRX/JbW+i/D2cU0t2An29VPbeSXXJFPphfmeWm/9ERpin3kPjiroxNWCfCASTm2XjsDNpBODhLay2jHnjVGJXqlBjZqcmbino7j+ALuJTSM''"

definition foo2_digest :: string where
  "foo2_digest = ''ac787d450ebaaf53b96624720d8aecb34c0e66cd599f26476e3c942849e58ab4''"

definition newer_index :: json where
  "newer_index = JObj [(''foo'', JObj [(''description'', JStr ''d''), (''versions'', JObj [(''2.0'',
     JObj [(''digest'', JStr foo2_digest), (''dependencies'', JArr [])])]),
     (''latest_version'', JStr ''2.0'')])]"

definition newer_index_text :: string where
  \<open>newer_index_text = ''{"foo": {"description": "d", "versions": {"2.0": {"digest": "ac787d450ebaaf53b96624720d8aecb34c0e66cd599f26476e3c942849e58ab4", "dependencies": []}}, "latest_version": "2.0"}}''\<close>

definition both_index :: json where
  "both_index = JObj [(''foo'', JObj [(''description'', JStr ''d''), (''versions'', JObj [(''2.0'',
     JObj [(''digest'', JStr foo2_digest), (''dependencies'', JArr [])]), (''1.0'',
     JObj [(''digest'', JStr foo_digest), (''dependencies'', JArr [])])]),
     (''latest_version'', JStr ''1.0'')])]"

definition versions_libs :: libs where
  "versions_libs = table_libs
     [(foo_manifest_text, foo_manifest), (foo_dumped, foo_record), (foo2_dumped, foo2_record),
      (newer_index_text, newer_index)]
     [(foo_record, foo_dumped)]
     [(foo_dumped, foo_deflated), (foo2_dumped, foo2_deflated)]
     [(''hello'', hello_digest), (foo_archive, foo_digest), (foo2_archive, foo2_digest)]"

definition two_world :: world where
  "two_world =
     \<lparr>packages_dir = [],
      pool_dir = [(''foo.2.0.ccp'', TextFile foo2_archive), (''foo.1.0.ccp'', TextFile foo_archive)],
      stdout = []\<rparr>"

definition newer_world :: world where
  "newer_world = foo_world\<lparr>pool_dir := [(''index.json'', TextFile newer_index_text)]\<rparr>"

section \<open>Properties\<close>

subsection \<open>Base64 and text\<close>

lemma distinct_alphabet: "distinct b64_alphabet"
  by (simp add: b64_alphabet_def)
lemma length_alphabet: "length b64_alphabet = 64"
  by (simp add: b64_alphabet_def)
lemma b64_value_char: "n < 64 \<Longrightarrow> b64_value (b64_char n) = Some n"
  unfolding b64_value_def b64_char_def
  using map_of_zip_nth[of b64_alphabet "[0..<64]" n] distinct_alphabet length_alphabet by simp
lemma alphabet_ascii: "list_all is_ascii b64_alphabet"
  by (simp add: b64_alphabet_def is_ascii_def)
lemma alphabet_no_pad: "CHR ''='' \<notin> set b64_alphabet"
  by (simp add: b64_alphabet_def)

lemma b64_char_in: "n < 64 \<Longrightarrow> b64_char n \<in> set b64_alphabet"
  by (simp add: b64_char_def length_alphabet)

lemma b64_char_no_pad: "n < 64 \<Longrightarrow> b64_char n \<noteq> CHR ''=''"
  using b64_char_in alphabet_no_pad by metis

lemma b64_char_ascii: "n < 64 \<Longrightarrow> is_ascii (b64_char n)"
  using b64_char_in alphabet_ascii by (auto simp: list_all_iff)

lemma of_char_lt: "(of_char c :: nat) < 256"
  by simp

lemma a2b_data:
  "n < 64 \<Longrightarrow> a2b_loop (b64_char n # cs) quad left pads out =
     (if quad = 0 then a2b_loop cs 1 n 0 out
      else if quad = 1 then a2b_loop cs 2 (n mod 16) 0 (out @ [char_of (left * 4 + n div 16)])
      else if quad = 2 then a2b_loop cs 3 (n mod 4) 0 (out @ [char_of (left * 16 + n div 4)])
      else a2b_loop cs 0 0 0 (out @ [char_of (left * 64 + n)]))"
  by (simp add: b64_char_no_pad b64_value_char)

lemma div16_less:
  "(B::nat) < 256 \<Longrightarrow> B div 16 < 16"
  by (rule less_mult_imp_div_less) simp

lemma div64_less:
  "(C::nat) < 256 \<Longrightarrow> C div 64 < 4"
  by (rule less_mult_imp_div_less) simp

lemma div4_less:
  "(A::nat) < 256 \<Longrightarrow> A div 4 < 64"
  by (rule less_mult_imp_div_less) simp

lemma mod4_bound:
  "(A::nat) mod 4 * 16 \<le> 48"
proof -
  have "A mod 4 < 4"
    by simp
  then show ?thesis
    by linarith
qed

lemma mod16_bound:
  "(B::nat) mod 16 * 4 \<le> 60"
proof -
  have "B mod 16 < 16"
    by simp
  then show ?thesis
    by linarith
qed

lemma sextet2_less:
  "(B::nat) < 256 \<Longrightarrow> A mod 4 * 16 + B div 16 < 64"
  using div16_less[of B] mod4_bound[of A] by linarith

lemma sextet3_less:
  "(C::nat) < 256 \<Longrightarrow> B mod 16 * 4 + C div 64 < 64"
  using div64_less[of C] mod16_bound[of B] by linarith

lemma byte1_nat:
  "(B::nat) < 256 \<Longrightarrow> A div 4 * 4 + (A mod 4 * 16 + B div 16) div 16 = A"
  using div16_less[of B] by simp

lemma byte2_nat:
  "(B::nat) < 256 \<Longrightarrow> (C::nat) < 256 \<Longrightarrow>
     (A mod 4 * 16 + B div 16) mod 16 * 16 + (B mod 16 * 4 + C div 64) div 4 = B"
  using div16_less[of B] div64_less[of C] by simp

lemma byte3_nat:
  "(C::nat) < 256 \<Longrightarrow> (B mod 16 * 4 + C div 64) mod 4 * 64 + C mod 64 = C"
  using div64_less[of C] by simp

lemma byte3:
  fixes a b c :: char
  shows "char_of ((of_char a :: nat) div 4 * 4 + (of_char a mod 4 * 16 + of_char b div 16) div 16) = a"
    and "char_of (((of_char a :: nat) mod 4 * 16 + of_char b div 16) mod 16 * 16 + (of_char b mod 16 * 4 + of_char c div 64) div 4) = b"
    and "char_of (((of_char b :: nat) mod 16 * 4 + of_char c div 64) mod 4 * 64 + of_char c mod 64) = c"
proof -
  have B: "(of_char b :: nat) < 256" and C: "(of_char c :: nat) < 256"
    by simp_all
  show "char_of ((of_char a :: nat) div 4 * 4 + (of_char a mod 4 * 16 + of_char b div 16) div 16) = a"
    unfolding byte1_nat[OF B] by simp
  show "char_of (((of_char a :: nat) mod 4 * 16 + of_char b div 16) mod 16 * 16 + (of_char b mod 16 * 4 + of_char c div 64) div 4) = b"
    unfolding byte2_nat[OF B C] by simp
  show "char_of (((of_char b :: nat) mod 16 * 4 + of_char c div 64) mod 4 * 64 + of_char c mod 64) = c"
    unfolding byte3_nat[OF C] by simp
qed

lemma sextets:
  fixes a b c :: char
  shows "(of_char a :: nat) div 4 < 64" "(of_char a :: nat) mod 4 * 16 < 64"
    "(of_char a :: nat) mod 4 * 16 + of_char b div 16 < 64"
    "(of_char b :: nat) mod 16 * 4 < 64"
    "(of_char b :: nat) mod 16 * 4 + of_char c div 64 < 64"
    "(of_char c :: nat) mod 64 < 64"
proof -
  have A: "(of_char a :: nat) < 256" and B: "(of_char b :: nat) < 256" and C: "(of_char c :: nat) < 256"
    by simp_all
  show "(of_char a :: nat) div 4 < 64"
    by (rule div4_less[OF A])
  show "(of_char a :: nat) mod 4 * 16 < 64"
    using mod4_bound[of "of_char a"] by linarith
  show "(of_char a :: nat) mod 4 * 16 + of_char b div 16 < 64"
    by (rule sextet2_less[OF B])
  show "(of_char b :: nat) mod 16 * 4 < 64"
    using mod16_bound[of "of_char b"] by linarith
  show "(of_char b :: nat) mod 16 * 4 + of_char c div 64 < 64"
    by (rule sextet3_less[OF C])
  show "(of_char c :: nat) mod 64 < 64"
    by simp
qed

lemma a2b_group4:
  assumes "s1 < 64" "s2 < 64" "s3 < 64" "s4 < 64"
  shows "a2b_loop (b64_char s1 # b64_char s2 # b64_char s3 # b64_char s4 # cs) 0 left pads out =
    a2b_loop cs 0 0 0 (out @ [char_of (s1 * 4 + s2 div 16), char_of (s2 mod 16 * 16 + s3 div 4),
      char_of (s3 mod 4 * 64 + s4)])"
  using assms by (simp add: a2b_data del: a2b_loop.simps(2))

lemma a2b_group3:
  assumes "s1 < 64" "s2 < 64" "s3 < 64"
  shows "a2b_loop [b64_char s1, b64_char s2, b64_char s3, CHR ''=''] 0 left pads out =
    Return (out @ [char_of (s1 * 4 + s2 div 16), char_of (s2 mod 16 * 16 + s3 div 4)])"
proof -
  have "a2b_loop [b64_char s1, b64_char s2, b64_char s3, CHR ''=''] 0 left pads out =
    a2b_loop [CHR ''=''] 3 (s3 mod 4) 0
      (out @ [char_of (s1 * 4 + s2 div 16), char_of (s2 mod 16 * 16 + s3 div 4)])"
    using assms by (simp add: a2b_data del: a2b_loop.simps(2))
  then show ?thesis by simp
qed

lemma a2b_group2:
  assumes "s1 < 64" "s2 < 64"
  shows "a2b_loop [b64_char s1, b64_char s2, CHR ''='', CHR ''=''] 0 left pads out =
    Return (out @ [char_of (s1 * 4 + s2 div 16)])"
proof -
  have "a2b_loop [b64_char s1, b64_char s2, CHR ''='', CHR ''=''] 0 left pads out =
    a2b_loop [CHR ''='', CHR ''=''] 2 (s2 mod 16) 0 (out @ [char_of (s1 * 4 + s2 div 16)])"
    using assms by (simp add: a2b_data del: a2b_loop.simps(2))
  then show ?thesis by simp
qed

lemma a2b_loop_b64encode:
  "a2b_loop (b64encode bs) 0 left pads out = Return (out @ bs)"
proof (induction bs arbitrary: left pads out rule: b64encode.induct)
  case 1
  then show ?case by simp
next
  case (2 a)
  have "char_of ((of_char a :: nat) div 4 * 4 + (of_char a mod 4 * 16) div 16) = a"
    using byte3(1)[of a "CHR 0x00"] by simp
  then show ?case
    unfolding b64encode.simps by (simp only: a2b_group2 sextets)
next
  case (3 a b)
  have "char_of (((of_char a :: nat) mod 4 * 16 + of_char b div 16) mod 16 * 16 + (of_char b mod 16 * 4) div 4) = b"
    using byte3(2)[of a b "CHR 0x00"] by simp
  then show ?case
    unfolding b64encode.simps by (simp only: a2b_group3 sextets byte3(1) append.simps)
next
  case (4 a b c rest)
  show ?case
    unfolding b64encode.simps append.simps
    by (simp only: a2b_group4 sextets byte3 "4.IH") simp
qed

lemma pad_ascii: "is_ascii (CHR ''='')"
  by (simp add: is_ascii_def)

lemma b64encode_ascii: "list_all is_ascii (b64encode bs)"
  by (induction bs rule: b64encode.induct) (simp_all add: b64_char_ascii sextets pad_ascii)

lemma b64decode_b64encode: "b64decode (b64encode bs) = Return bs"
  by (simp add: b64decode_def b64encode_ascii a2b_loop_b64encode)

lemma str_encode_ascii: "list_all is_ascii s \<Longrightarrow> str_encode s = s"
  by (induction s) (simp_all add: str_encode_def utf8_char_def)

subsection \<open>Results of the steps\<close>

lemma and_then_Return:
  "and_then m f = Return y \<longleftrightarrow> (\<exists>x. m = Return x \<and> f x = Return y)"
  by (cases m) auto

lemma then_do_Return:
  "then_do m f = (Return y, w') \<longleftrightarrow> (\<exists>x w1. m = (Return x, w1) \<and> f x w1 = (Return y, w'))"
  by (auto simp: then_do_def split: prod.splits result.splits)

lemma version_string_Return: "version_string v = Return s \<longleftrightarrow> v = JStr s"
  by (cases v) auto

lemma compress_ascii: "list_all is_ascii (compress L p)"
  by (simp add: compress_def b64encode_ascii)

lemma bytes_decode_compress: "bytes_decode (compress L p) = Return (compress L p)"
  by (simp add: bytes_decode_def compress_ascii)

lemma archive_decodes:
  assumes "zlib_decompress L (zlib_compress L (str_encode (json_dumps L r))) = Inr (str_encode (json_dumps L r))"
    and "json_loads_bytes L (str_encode (json_dumps L r)) = Inr r"
  shows "and_then (bytes_decode (compress L r)) (decode_archive L) = Return r"
  using assms
  by (simp add: bytes_decode_compress decode_archive_def) (simp add: compress_def b64decode_b64encode)

lemma pool_write_Return:
  "pool_write fname t w = (Return u, w') \<Longrightarrow>
     CHR 0x00 \<notin> set fname \<and> CHR ''/'' \<notin> set fname \<and>
     w' = w\<lparr>pool_dir := AList.update fname (TextFile t) (pool_dir w)\<rparr>"
  by (auto simp: pool_write_def split: if_splits option.splits node.splits)

lemma build_and_write_package_Some:
  assumes "build_and_write_package L name w = (Return (Some (p, d)), w')"
  shows "\<exists>v w1. build_package L name (print (''Packaging '' @ name) w) = (Return (Some p), w1)
           \<and> py_getitem p ''version'' = Return (JStr v)
           \<and> CHR 0x00 \<notin> set (archive_name name v) \<and> CHR ''/'' \<notin> set (archive_name name v)
           \<and> d = sha256_hexdigest L (compress L p)
           \<and> w' = w1\<lparr>pool_dir := AList.update (archive_name name v) (TextFile (compress L p)) (pool_dir w1)\<rparr>"
proof -
  from assms obtain package w1 where
    bp: "build_package L name (print (''Packaging '' @ name) w) = (Return package, w1)"
    and rest: "(case package of None \<Rightarrow> (Return None, w1)
       | Some p \<Rightarrow>
           (let data = compress L p in
            then_do (and_then (py_getitem p ''version'') version_string, w1) (\<lambda>version w2.
            then_do (bytes_decode data, w2) (\<lambda>t w3.
            then_do (pool_write (archive_name name version) t w3) (\<lambda>u w4.
            (Return (Some (p, sha256_hexdigest L data)), w4)))))) = (Return (Some (p, d)), w')"
    unfolding build_and_write_package_def then_do_Return by blast
  from rest obtain q where q: "package = Some q" by (cases package) auto
  from rest[unfolded q] obtain v u where
    v: "and_then (py_getitem q ''version'') version_string = Return v"
    and wr: "pool_write (archive_name name v) (compress L q) w1 = (Return u, w')"
    and pd: "p = q" "d = sha256_hexdigest L (compress L q)"
    by (auto simp: Let_def then_do_Return bytes_decode_compress)
  from v have "py_getitem q ''version'' = Return (JStr v)"
    by (auto simp: and_then_Return version_string_Return)
  with bp q pd pool_write_Return[OF wr] show ?thesis by auto
qed

lemma pool_read_Return:
  "pool_read w fname = Return t \<Longrightarrow> map_of (pool_dir w) fname = Some (TextFile t)"
  by (auto simp: pool_read_def split: if_splits option.splits node.splits)

lemma read_handler_Some: "read_handler version e w \<noteq> (Return (Some x), w')"
  by (cases e) auto

lemma read_package_Some:
  assumes "read_package L name version w = (Return (Some (m, d)), w')"
  shows "\<exists>t. map_of (pool_dir w) (archive_name name version) = Some (TextFile t)
           \<and> decode_archive L t = Return m \<and> d = sha256_hexdigest L (str_encode t) \<and> w' = w"
  using assms unfolding read_package_def
  by (auto simp: and_then_Return read_handler_Some dest!: pool_read_Return split: result.splits)

subsection \<open>What the functions change\<close>

lemma only_printed_refl:
  "only_printed w w"
  by (simp add: only_printed_def)

lemma only_printed_trans:
  "only_printed w w1 \<Longrightarrow> only_printed w1 w2 \<Longrightarrow> only_printed w w2"
  by (auto simp: only_printed_def)

lemma only_printed_print:
  "only_printed w (print s w)"
  by (simp add: only_printed_def print_def)

lemma only_printed_print':
  "only_printed w w1 \<Longrightarrow> only_printed w (print s w1)"
  by (auto simp: only_printed_def print_def)

lemma only_printed_error_line:
  "only_printed w w1 \<Longrightarrow> only_printed w (w1\<lparr>stdout := stdout w1 @ [ErrorLine e]\<rparr>)"
  by (auto simp: only_printed_def)

lemma archives_written_refl:
  "archives_written w w"
  by (simp add: archives_written_def)

lemma only_printed_archives:
  "only_printed w w' \<Longrightarrow> archives_written w w'"
  by (auto simp: only_printed_def archives_written_def)

lemma archives_written_trans:
  assumes "archives_written w w1" and "archives_written w1 w2"
  shows "archives_written w w2"
proof -
  have "map_of (pool_dir w2) f = map_of (pool_dir w) f \<or>
           ((\<exists>s. f = s @ ''.ccp'') \<and> (\<exists>t. map_of (pool_dir w2) f = Some (TextFile t)) \<and>
            map_of (pool_dir w) f \<noteq> Some Directory)" for f
    using assms unfolding archives_written_def
    by (metis node.distinct(1) option.inject)
  with assms show ?thesis
    unfolding archives_written_def by auto
qed

lemma check_fields_only_printed:
  "check_fields m keys w = (r, w') \<Longrightarrow> only_printed w w'"
proof (induction keys arbitrary: w)
  case Nil
  then show ?case by (simp add: only_printed_refl)
next
  case (Cons key keys)
  then show ?case
    by (auto split: result.splits if_splits
        intro: only_printed_refl only_printed_trans[OF only_printed_print])
qed

lemma manifest_handler_only_printed:
  "manifest_handler e w = (r, w') \<Longrightarrow> only_printed w w'"
  by (cases e) (auto simp: only_printed_refl only_printed_print)

lemma get_manifest_only_printed:
  assumes "get_manifest L name w = (r, w')"
  shows "only_printed w w'"
proof -
  let ?w1 = "print ''[i] Reading manifest'' w"
  have 1: "only_printed w ?w1"
    by (rule only_printed_print)
  have "only_printed ?w1 w'"
    using assms unfolding get_manifest_def Let_def
    by (auto split: result.splits prod.splits
        dest: check_fields_only_printed manifest_handler_only_printed
        intro: only_printed_refl only_printed_trans)
  with 1 show ?thesis
    by (rule only_printed_trans)
qed

lemma add_files_only_printed:
  "add_files L name paths m w = (r, w') \<Longrightarrow> only_printed w w'"
proof (induction paths arbitrary: m w)
  case Nil
  then show ?case by (simp add: only_printed_refl)
next
  case (Cons path paths)
  then show ?case
    by (auto simp: Let_def split: result.splits
        intro: only_printed_print only_printed_trans[OF only_printed_print])
qed

lemma then_do_cases:
  assumes "then_do m f = (r, w')"
  obtains x w1 where "m = (Return x, w1)" "f x w1 = (r, w')"
  | e where "m = (Raise e, w')" "r = Raise e"
  | "m = (Unmodelled, w')" "r = Unmodelled"
  using assms unfolding then_do_def
  by (auto split: prod.splits result.splits)

lemma build_package_only_printed:
  assumes "build_package L name w = (r, w')"
  shows "only_printed w w'"
  using assms unfolding build_package_def
  by (auto elim!: then_do_cases split: option.splits
      dest!: get_manifest_only_printed add_files_only_printed
      intro: only_printed_refl only_printed_trans)

lemma only_printed_after_print:
  "only_printed (print s w) w' \<Longrightarrow> only_printed w w'"
  by (rule only_printed_trans[OF only_printed_print])

lemma archives_written_after_print:
  "archives_written (print s w) w' \<Longrightarrow> archives_written w w'"
  by (rule archives_written_trans[OF only_printed_archives[OF only_printed_print]])

lemma pool_write_archives_written:
  assumes "pool_write (archive_name name version) t w = (r, w')"
  shows "archives_written w w'"
proof -
  have n: "\<exists>s. archive_name name version = s @ ''.ccp''"
    unfolding archive_name_def by (rule exI[of _ "name @ ''.'' @ version"]) simp
  show ?thesis
    using assms n unfolding pool_write_def archives_written_def
    by (auto simp: update_conv' split: if_splits option.splits node.splits)
qed

lemma build_and_write_package_archives_written:
  assumes "build_and_write_package L name w = (r, w')"
  shows "archives_written w w'"
proof -
  from assms have "archives_written (print (''Packaging '' @ name) w) w'"
    unfolding build_and_write_package_def Let_def
  proof (cases rule: then_do_cases)
    case (1 package w1)
    from 1(1) have a: "archives_written (print (''Packaging '' @ name) w) w1"
      by (rule build_package_only_printed[THEN only_printed_archives])
    show ?thesis
    proof (cases package)
      case None
      with 1 a show ?thesis by simp
    next
      case (Some p)
      from 1(2)[unfolded Some option.case] have "archives_written w1 w'"
        by (auto elim!: then_do_cases dest: pool_write_archives_written
            intro: archives_written_refl)
      with a show ?thesis
        by (rule archives_written_trans)
    qed
  next
    case (2 e)
    then show ?thesis
      by (auto dest: build_package_only_printed[THEN only_printed_archives])
  next
    case 3
    then show ?thesis
      by (auto dest: build_package_only_printed[THEN only_printed_archives])
  qed
  then show ?thesis
    by (rule archives_written_after_print)
qed

lemma build_packages_archives_written:
  "build_packages L names packages w = (r, w') \<Longrightarrow> archives_written w w'"
proof (induction names arbitrary: packages w)
  case Nil
  then show ?case by (simp add: archives_written_refl)
next
  case (Cons name names)
  obtain r1 w1 where b: "build_and_write_package L name w = (r1, w1)"
    by force
  then have a: "archives_written w w1"
    by (rule build_and_write_package_archives_written)
  have "archives_written w1 w'"
    using Cons.prems b
    by (auto split: result.splits option.splits dest: Cons.IH intro: archives_written_refl)
  with a show ?case
    by (rule archives_written_trans)
qed

lemma build_index_archives_written:
  "build_index L w = (r, w') \<Longrightarrow> archives_written w w'"
  unfolding build_index_def
  by (auto split: result.splits dest: build_packages_archives_written
      intro: archives_written_refl)

lemma index_file_not_archive:
  "INDEX_FILE \<noteq> s @ ''.ccp''"
proof
  assume "INDEX_FILE = s @ ''.ccp''"
  then have "last INDEX_FILE = last (s @ ''.ccp'')"
    by simp
  then show False
    by (simp add: INDEX_FILE_def)
qed

lemma archives_written_index:
  "archives_written w w' \<Longrightarrow> map_of (pool_dir w') INDEX_FILE = map_of (pool_dir w) INDEX_FILE"
  unfolding archives_written_def using index_file_not_archive by blast

lemma read_handler_only_printed:
  "read_handler version e w = (r, w') \<Longrightarrow> only_printed w w'"
  by (cases e) (auto simp: only_printed_refl only_printed_print)

lemma read_package_only_printed:
  "read_package L name version w = (r, w') \<Longrightarrow> only_printed w w'"
  unfolding read_package_def
  by (auto split: result.splits dest: read_handler_only_printed intro: only_printed_refl)

lemma index_versions_only_printed:
  "index_versions L name versions packages w = (r, w') \<Longrightarrow> only_printed w w'"
proof (induction versions arbitrary: packages w)
  case Nil
  then show ?case by (simp add: only_printed_refl)
next
  case (Cons version versions)
  obtain r1 w1 where rp: "read_package L name version w = (r1, w1)"
    by force
  then have a: "only_printed w w1"
    by (rule read_package_only_printed)
  have "only_printed w1 w'"
    using Cons.prems rp
    by (auto simp: Let_def split: result.splits option.splits
        dest!: Cons.IH dest: only_printed_after_print
        intro: only_printed_refl only_printed_print)
  with a show ?case
    by (rule only_printed_trans)
qed

lemma index_packages_only_printed:
  "index_packages L built packages w = (r, w') \<Longrightarrow> only_printed w w'"
proof (induction built arbitrary: packages w)
  case Nil
  then show ?case by (simp add: only_printed_refl)
next
  case (Cons b built)
  obtain name versions where b: "b = (name, versions)"
    by (cases b)
  obtain r1 w1 where iv:
    "index_versions L name versions packages (print (''Indexing '' @ name) w) = (r1, w1)"
    by force
  then have a: "only_printed w w1"
    by (rule index_versions_only_printed[THEN only_printed_after_print])
  have "only_printed w1 w'"
    using Cons.prems iv unfolding b
    by (auto split: result.splits dest: Cons.IH intro: only_printed_refl)
  with a show ?case
    by (rule only_printed_trans)
qed

lemma repair_package_index_only_printed:
  "repair_package_index L w = (r, w') \<Longrightarrow> only_printed w w'"
  unfolding repair_package_index_def
  by (auto split: result.splits dest: index_packages_only_printed intro: only_printed_refl)

subsection \<open>Dictionaries, the builder and the upsert\<close>

lemma py_setitem_Return:
  "py_setitem x k v = Return y \<longleftrightarrow> (\<exists>kvs. x = JObj kvs \<and> y = JObj (AList.update k v kvs))"
  by (cases x) auto

lemma py_getitem_Return:
  "py_getitem x k = Return v \<longleftrightarrow> (\<exists>kvs. x = JObj kvs \<and> map_of kvs k = Some v)"
  by (cases x) (auto split: option.splits)

lemma py_contains_Return:
  "py_contains (JObj kvs) k = Return b \<longleftrightarrow> b = (map_of kvs k \<noteq> None)"
  by auto

lemma py_setitem_other:
  "py_setitem x k v = Return y \<Longrightarrow> k' \<noteq> k \<Longrightarrow>
     py_getitem y k' = py_getitem x k' \<and> py_contains y k' = py_contains x k'"
  by (auto simp: py_setitem_Return update_conv')

lemma py_setitem_same:
  "py_setitem x k v = Return y \<Longrightarrow> py_getitem y k = Return v \<and> py_contains y k = Return True"
  by (auto simp: py_setitem_Return update_conv')

lemma set_file_other:
  assumes "set_file m path entry = Return m'" and "key \<noteq> ''files''"
  shows "py_getitem m' key = py_getitem m key \<and> py_contains m' key = py_contains m key"
  using assms unfolding set_file_def
  by (auto simp: and_then_Return dest: py_setitem_other)

lemma add_files_other:
  assumes "add_files L name paths m w = (Return p, w')" and "key \<noteq> ''files''"
  shows "py_getitem p key = py_getitem m key \<and> py_contains p key = py_contains m key"
  using assms
proof (induction paths arbitrary: m w)
  case Nil
  then show ?case by simp
next
  case (Cons path paths)
  from Cons.prems(1) obtain m1 where
    s: "and_then (read_source (print (''[+] '' @ path) w) name path)
          (\<lambda>content. set_file m path (file_entry L content)) = Return m1"
    and r: "add_files L name paths m1 (print (''[+] '' @ path) w) = (Return p, w')"
    by (auto simp: Let_def split: result.splits)
  from s obtain content where "set_file m path (file_entry L content) = Return m1"
    by (auto simp: and_then_Return)
  from set_file_other[OF this Cons.prems(2)] Cons.IH[OF r Cons.prems(2)] show ?case
    by simp
qed

lemma build_package_Some:
  assumes "build_package L name w = (Return (Some p), w2)"
  shows "\<exists>m m1 w1. get_manifest L name w = (Return (Some m), w1) \<and>
           py_setitem m ''files'' (JObj []) = Return m1 \<and>
           add_files L name (get_package_files w1 name) m1 w1 = (Return p, w2)"
  using assms unfolding build_package_def
  by (auto simp: then_do_Return split: option.splits)

lemma build_package_keys:
  assumes "get_manifest L name w = (Return (Some m), w1)"
    and "build_package L name w = (Return (Some p), w2)"
    and "key \<noteq> ''files''"
  shows "py_getitem p key = py_getitem m key \<and> py_contains p key = py_contains m key"
proof -
  from build_package_Some[OF assms(2)] assms(1) obtain m1 where
    s: "py_setitem m ''files'' (JObj []) = Return m1"
    and a: "add_files L name (get_package_files w1 name) m1 w1 = (Return p, w2)"
    by auto
  from py_setitem_other[OF s, of key] add_files_other[OF a assms(3)] assms(3) show ?thesis
    by simp
qed

lemma index_upsert_Return:
  assumes "index_upsert packages name manifest vr digest = Return packages'"
  shows "\<exists>ps kvs vs v description dependencies.
           packages = JObj ps \<and> vr = Return v \<and>
           py_getitem manifest ''description'' = Return description \<and>
           py_getitem manifest ''dependencies'' = Return dependencies \<and>
           map_of (if map_of ps name \<noteq> None then ps else AList.update name new_entry ps) name =
             Some (JObj kvs) \<and>
           map_of (AList.update ''description'' description kvs) ''versions'' = Some (JObj vs) \<and>
           packages' =
             JObj (AList.update name
               (JObj (AList.update ''latest_version'' (JStr v)
                  (AList.update ''versions''
                     (JObj (AList.update v
                        (JObj [(''digest'', JStr digest), (''dependencies'', dependencies)]) vs))
                     (AList.update ''description'' description kvs))))
               (if map_of ps name \<noteq> None then ps else AList.update name new_entry ps))"
proof -
  from assms obtain present where c: "py_contains packages name = Return present"
    unfolding index_upsert_def by (auto simp: and_then_Return)
  from assms c obtain ps where ps: "packages = JObj ps"
    unfolding index_upsert_def
    by (cases packages) (auto simp: and_then_Return py_setitem_Return split: if_splits)
  from c ps have present: "present = (map_of ps name \<noteq> None)"
    by auto
  show ?thesis
    using assms unfolding index_upsert_def ps
    by (auto simp: and_then_Return py_setitem_Return py_getitem_Return split: if_splits)
qed


subsection \<open>What the build loop leaves alone\<close>


lemma index_upsert_other:
  assumes "index_upsert packages name manifest version digest = Return packages'"
    and "n \<noteq> name"
  shows "py_getitem packages' n = py_getitem packages n \<and>
         py_contains packages' n = py_contains packages n"
  using index_upsert_Return[OF assms(1)] assms(2)
  by (auto simp: update_conv')

lemma check_fields_fst:
  "fst (check_fields m keys w) = fst (check_fields m keys w')"
  by (induction keys arbitrary: w w') (auto split: result.splits)

lemma manifest_handler_fst:
  "fst (manifest_handler e w) = fst (manifest_handler e w')"
  by (cases e) auto

lemma open_manifest_cong:
  "packages_dir w = packages_dir w' \<Longrightarrow> open_manifest w name = open_manifest w' name"
  by (simp add: open_manifest_def)

lemma get_manifest_fst:
  assumes "packages_dir w = packages_dir w'"
  shows "fst (get_manifest L name w) = fst (get_manifest L name w')"
proof -
  have o: "open_manifest (print ''[i] Reading manifest'' w) name =
           open_manifest (print ''[i] Reading manifest'' w') name"
    using assms by (simp add: open_manifest_def print_def)
  show ?thesis
  proof (cases "and_then (open_manifest (print ''[i] Reading manifest'' w') name)
                  (\<lambda>t. of_lib (json_load L t))")
    case (Return m)
    obtain r1 w1 where c1: "check_fields m MANIFEST_FIELDS (print ''[i] Reading manifest'' w) = (r1, w1)"
      by force
    obtain r2 w2 where c2: "check_fields m MANIFEST_FIELDS (print ''[i] Reading manifest'' w') = (r2, w2)"
      by force
    from check_fields_fst[of m MANIFEST_FIELDS "print ''[i] Reading manifest'' w"
        "print ''[i] Reading manifest'' w'"] c1 c2
    have r: "r1 = r2" by simp
    show ?thesis
      unfolding get_manifest_def Let_def o Return using c1 c2 r
      by (cases r2) (auto simp: manifest_handler_fst[of _ w1 w2])
  next
    case (Raise e)
    then show ?thesis
      unfolding get_manifest_def Let_def o
      by (simp add: manifest_handler_fst[of e "print ''[i] Reading manifest'' w"
            "print ''[i] Reading manifest'' w'"])
  next
    case Unmodelled
    then show ?thesis
      unfolding get_manifest_def Let_def o by simp
  qed
qed

lemma packages_dir_print:
  "packages_dir (print s w) = packages_dir w"
  by (simp add: print_def)

lemma build_and_write_package_None:
  assumes "fst (get_manifest L name w0) = Return None" and "packages_dir w = packages_dir w0"
  shows "\<exists>w'. build_and_write_package L name w = (Return None, w')"
proof -
  have "fst (get_manifest L name (print (''Packaging '' @ name) w)) = Return None"
    using get_manifest_fst[of "print (''Packaging '' @ name) w" w0 L name] assms
    by (simp add: packages_dir_print)
  then obtain w1 where "get_manifest L name (print (''Packaging '' @ name) w) = (Return None, w1)"
    by (metis prod.collapse)
  then show ?thesis
    by (simp add: build_and_write_package_def build_package_def then_do_def)
qed

lemma archives_written_packages_dir:
  "archives_written w w' \<Longrightarrow> packages_dir w' = packages_dir w"
  by (simp add: archives_written_def)

lemma build_packages_other:
  assumes "build_packages L names packages w = (Return packages', w')"
    and "packages_dir w = packages_dir w0"
    and "name \<notin> set names \<or> fst (get_manifest L name w0) = Return None"
  shows "py_getitem packages' name = py_getitem packages name \<and>
         py_contains packages' name = py_contains packages name"
  using assms
proof (induction names arbitrary: packages w)
  case Nil
  then show ?case by simp
next
  case (Cons n names)
  obtain r1 w1 where b: "build_and_write_package L n w = (r1, w1)"
    by force
  from build_and_write_package_archives_written[OF b] Cons.prems(2)
  have pd: "packages_dir w1 = packages_dir w0"
    by (simp add: archives_written_packages_dir)
  from Cons.prems(3) have rest: "name \<notin> set names \<or> fst (get_manifest L name w0) = Return None"
    by auto
  show ?case
  proof (cases r1)
    case (Return built)
    show ?thesis
    proof (cases built)
      case None
      with Cons.prems(1) b Return have "build_packages L names packages w1 = (Return packages', w')"
        by simp
      from Cons.IH[OF this pd rest] show ?thesis .
    next
      case (Some md)
      obtain m d where md: "md = (m, d)"
        by (cases md)
      have ne: "name \<noteq> n"
      proof
        assume "name = n"
        with Cons.prems(3) have "fst (get_manifest L n w0) = Return None"
          by auto
        from build_and_write_package_None[OF this Cons.prems(2)] b Return Some show False
          by simp
      qed
      from Cons.prems(1) b Return Some md obtain p1 where
        u: "index_upsert packages n m (and_then (py_getitem m ''version'') version_string) d = Return p1"
        and r: "build_packages L names p1 w1 = (Return packages', w')"
        by (auto split: result.splits)
      from index_upsert_other[OF u ne] Cons.IH[OF r pd rest] show ?thesis
        by simp
    qed
  next
    case (Raise e)
    with Cons.prems(1) b show ?thesis by simp
  next
    case Unmodelled
    with Cons.prems(1) b show ?thesis by simp
  qed
qed

lemma load_index_not_directory:
  "load_index L w = Return prior \<Longrightarrow> map_of (pool_dir w) INDEX_FILE \<noteq> Some Directory"
  by (auto simp: load_index_def)

lemma main_build_Return:
  assumes "load_index L w = Return prior" and "build_index L w = (Return packages, w1)"
  shows "main L False w =
           (Exit 0, (print ''Writing index'' w1)\<lparr>pool_dir :=
              AList.update INDEX_FILE (TextFile (json_dumps L packages)) (pool_dir w1)\<rparr>)"
proof -
  have "map_of (pool_dir w1) INDEX_FILE \<noteq> Some Directory"
    using archives_written_index[OF build_index_archives_written[OF assms(2)]]
      load_index_not_directory[OF assms(1)] by simp
  then have "pool_write INDEX_FILE (json_dumps L packages) (print ''Writing index'' w1) =
      (Return (), (print ''Writing index'' w1)\<lparr>pool_dir :=
              AList.update INDEX_FILE (TextFile (json_dumps L packages)) (pool_dir w1)\<rparr>)"
    by (auto simp: pool_write_def print_def INDEX_FILE_def split: option.splits node.splits)
  with assms(2) show ?thesis
    by (simp add: main_def)
qed


subsection \<open>The listing of the pool\<close>

lemma set_tl_subset: "set (tl xs) \<subseteq> set xs"
  by (cases xs) auto

lemma set_alist_update:
  "set (AList.update k v al) \<subseteq> insert (k, v) (set al)"
  by (induction al) auto

lemma list_all_alist_update:
  "list_all P al \<Longrightarrow> P (k, v) \<Longrightarrow> list_all P (AList.update k v al)"
  by (induction al) auto

lemma split_entry_chars:
  assumes "split_entry fname = Return (n, v)"
  shows "set n \<subseteq> set fname \<and> set v \<subseteq> set fname"
proof -
  define stem where "stem = take (length fname - 4) fname"
  from assms have n: "n = takeWhile (\<lambda>c. c \<noteq> CHR ''.'') stem"
    and v: "v = tl (dropWhile (\<lambda>c. c \<noteq> CHR ''.'') stem)"
    unfolding split_entry_def Let_def stem_def by (simp_all split: if_splits)
  have s: "set stem \<subseteq> set fname"
    unfolding stem_def by (rule set_take_subset)
  have "set n \<subseteq> set stem"
    unfolding n using set_takeWhileD by fastforce
  moreover have "set v \<subseteq> set stem"
    unfolding v using set_tl_subset set_dropWhileD by fastforce
  ultimately show ?thesis
    using s by blast
qed

lemma split_entry_archive:
  assumes "split_entry (stem @ ''.ccp'') = Return (n, v)"
  shows "archive_name n v = stem @ ''.ccp''"
proof -
  have t: "take (length (stem @ ''.ccp'') - 4) (stem @ ''.ccp'') = stem"
    by simp
  from assms have d: "CHR ''.'' \<in> set stem"
    and n: "n = takeWhile (\<lambda>c. c \<noteq> CHR ''.'') stem"
    and v: "v = tl (dropWhile (\<lambda>c. c \<noteq> CHR ''.'') stem)"
    unfolding split_entry_def t Let_def by (simp_all split: if_splits)
  from d have ne: "dropWhile (\<lambda>c. c \<noteq> CHR ''.'') stem \<noteq> []"
    by auto
  then have "hd (dropWhile (\<lambda>c. c \<noteq> CHR ''.'') stem) = CHR ''.''"
    using hd_dropWhile[of "\<lambda>c. c \<noteq> CHR ''.''" stem] by simp
  with ne have "dropWhile (\<lambda>c. c \<noteq> CHR ''.'') stem = CHR ''.'' # v"
    unfolding v by (cases "dropWhile (\<lambda>c. c \<noteq> CHR ''.'') stem") auto
  then have "stem = n @ CHR ''.'' # v"
    unfolding n using takeWhile_dropWhile_id[of "\<lambda>c. c \<noteq> CHR ''.''" stem] by simp
  then show ?thesis
    by (simp add: archive_name_def)
qed

lemma archive_name_chars:
  assumes "split_entry fname = Return (n, v)"
    and "CHR ''/'' \<notin> set fname" and "CHR 0x00 \<notin> set fname"
  shows "CHR ''/'' \<notin> set (archive_name n v) \<and> CHR 0x00 \<notin> set (archive_name n v)"
proof -
  from split_entry_chars[OF assms(1)] assms(2,3)
  have "CHR ''/'' \<notin> set n" "CHR ''/'' \<notin> set v" "CHR 0x00 \<notin> set n" "CHR 0x00 \<notin> set v"
    by blast+
  then show ?thesis
    by (simp add: archive_name_def)
qed

lemma group_entries_kept:
  assumes "group_entries entries rtn = Return built"
    and "map_of rtn n = Some vs0" and "v \<in> set vs0"
  shows "\<exists>vs. map_of built n = Some vs \<and> v \<in> set vs"
  using assms
proof (induction entries arbitrary: rtn vs0)
  case Nil
  then show ?case by simp
next
  case (Cons fname entries)
  from Cons.prems(1) obtain n1 v1 where s: "split_entry fname = Return (n1, v1)"
    and g: "group_entries entries
            (case map_of rtn n1 of
               Some versions \<Rightarrow> AList.update n1 (versions @ [v1]) rtn
             | None \<Rightarrow> AList.update n1 [v1] rtn) = Return built"
    by (auto split: result.splits)
  have "\<exists>vs1. map_of (case map_of rtn n1 of
               Some versions \<Rightarrow> AList.update n1 (versions @ [v1]) rtn
             | None \<Rightarrow> AList.update n1 [v1] rtn) n = Some vs1 \<and> v \<in> set vs1"
    using Cons.prems(2,3) by (auto simp: update_conv' split: option.splits)
  then obtain vs1 where "map_of (case map_of rtn n1 of
               Some versions \<Rightarrow> AList.update n1 (versions @ [v1]) rtn
             | None \<Rightarrow> AList.update n1 [v1] rtn) n = Some vs1" "v \<in> set vs1"
    by blast
  from Cons.IH[OF g this] show ?case .
qed

lemma group_entries_mem:
  assumes "group_entries entries rtn = Return built" and "fname \<in> set entries"
  shows "\<exists>n v vs. split_entry fname = Return (n, v) \<and> map_of built n = Some vs \<and> v \<in> set vs"
  using assms
proof (induction entries arbitrary: rtn)
  case Nil
  then show ?case by simp
next
  case (Cons f entries)
  from Cons.prems(1) obtain n1 v1 where s: "split_entry f = Return (n1, v1)"
    and g: "group_entries entries
            (case map_of rtn n1 of
               Some versions \<Rightarrow> AList.update n1 (versions @ [v1]) rtn
             | None \<Rightarrow> AList.update n1 [v1] rtn) = Return built"
    by (auto split: result.splits)
  show ?case
  proof (cases "fname = f")
    case True
    have "\<exists>vs1. map_of (case map_of rtn n1 of
               Some versions \<Rightarrow> AList.update n1 (versions @ [v1]) rtn
             | None \<Rightarrow> AList.update n1 [v1] rtn) n1 = Some vs1 \<and> v1 \<in> set vs1"
      by (auto simp: update_conv' split: option.splits)
    then obtain vs1 where "map_of (case map_of rtn n1 of
               Some versions \<Rightarrow> AList.update n1 (versions @ [v1]) rtn
             | None \<Rightarrow> AList.update n1 [v1] rtn) n1 = Some vs1" "v1 \<in> set vs1"
      by blast
    from group_entries_kept[OF g this] s True show ?thesis
      by blast
  next
    case False
    with Cons.prems(2) have "fname \<in> set entries"
      by simp
    from Cons.IH[OF g this] show ?thesis .
  qed
qed

lemma group_entries_all:
  assumes "group_entries entries rtn = Return built"
    and "\<And>n vs v. (n, vs) \<in> set rtn \<Longrightarrow> v \<in> set vs \<Longrightarrow> P n v"
    and "\<And>fname n v. fname \<in> set entries \<Longrightarrow> split_entry fname = Return (n, v) \<Longrightarrow> P n v"
    and "(n, vs) \<in> set built" and "v \<in> set vs"
  shows "P n v"
  using assms
proof (induction entries arbitrary: rtn)
  case Nil
  then show ?case by auto
next
  case (Cons f entries)
  from Cons.prems(1) obtain n1 v1 where s: "split_entry f = Return (n1, v1)"
    and g: "group_entries entries
            (case map_of rtn n1 of
               Some versions \<Rightarrow> AList.update n1 (versions @ [v1]) rtn
             | None \<Rightarrow> AList.update n1 [v1] rtn) = Return built"
    by (auto split: result.splits)
  have p1: "P n1 v1"
    using Cons.prems(3)[OF _ s] by simp
  have r: "P n' v'" if m: "(n', vs') \<in> set (case map_of rtn n1 of
               Some versions \<Rightarrow> AList.update n1 (versions @ [v1]) rtn
             | None \<Rightarrow> AList.update n1 [v1] rtn)" and v: "v' \<in> set vs'" for n' vs' v'
  proof (cases "map_of rtn n1")
    case None
    with m have "(n', vs') \<in> insert (n1, [v1]) (set rtn)"
      using set_alist_update[of n1 "[v1]" rtn] by auto
    with v p1 Cons.prems(2) show ?thesis
      by auto
  next
    case (Some versions)
    with m have "(n', vs') \<in> insert (n1, versions @ [v1]) (set rtn)"
      using set_alist_update[of n1 "versions @ [v1]" rtn] by auto
    moreover from Some have "(n1, versions) \<in> set rtn"
      by (rule map_of_SomeD)
    ultimately show ?thesis
      using v p1 Cons.prems(2) by auto
  qed
  show ?case
    by (rule Cons.IH[OF g r _ Cons.prems(4,5)]) (auto intro: Cons.prems(3))
qed

subsection \<open>The repair loops\<close>

lemma and_then_Unmodelled:
  "and_then m f = Unmodelled \<longleftrightarrow> (m = Unmodelled \<or> (\<exists>x. m = Return x \<and> f x = Unmodelled))"
  by (cases m) auto

lemma py_contains_modelled: "py_contains x k \<noteq> Unmodelled"
  by (cases x) auto

lemma py_getitem_modelled: "py_getitem x k \<noteq> Unmodelled"
  by (cases x) (auto split: option.splits)

lemma py_setitem_modelled: "py_setitem x k y \<noteq> Unmodelled"
  by (cases x) auto

lemma index_upsert_modelled:
  "index_upsert packages name m (Return v) d \<noteq> Unmodelled"
  unfolding index_upsert_def
  by (simp add: and_then_Unmodelled py_contains_modelled py_getitem_modelled py_setitem_modelled)

lemma entry_ok_new_entry: "entry_ok new_entry"
  by (simp add: new_entry_def)

lemma index_upsert_index_ok:
  assumes "index_upsert packages name m vr d = Return p'" and "index_ok packages"
  shows "index_ok p'"
proof -
  from index_upsert_Return[OF assms(1)] obtain ps kvs vs v description dependencies where
    ps: "packages = JObj ps"
    and p': "p' =
             JObj (AList.update name
               (JObj (AList.update ''latest_version'' (JStr v)
                  (AList.update ''versions''
                     (JObj (AList.update v
                        (JObj [(''digest'', JStr d), (''dependencies'', dependencies)]) vs))
                     (AList.update ''description'' description kvs))))
               (if map_of ps name \<noteq> None then ps else AList.update name new_entry ps))"
    by blast
  from assms(2) ps have a: "list_all (\<lambda>p. entry_ok (snd p)) ps"
    by simp
  then have b: "list_all (\<lambda>p. entry_ok (snd p))
                  (if map_of ps name \<noteq> None then ps else AList.update name new_entry ps)"
    by (simp add: list_all_alist_update entry_ok_new_entry)
  have c: "entry_ok (JObj (AList.update ''latest_version'' (JStr v)
                  (AList.update ''versions''
                     (JObj (AList.update v
                        (JObj [(''digest'', JStr d), (''dependencies'', dependencies)]) vs))
                     (AList.update ''description'' description kvs))))"
    by (simp add: update_conv')
  show ?thesis
    unfolding p' index_ok.simps
    by (rule list_all_alist_update[OF b]) (simp only: snd_conv c)
qed

lemma index_ok_entry:
  assumes "index_ok (JObj ps)" and "map_of ps name = Some e"
  shows "\<exists>ekvs. e = JObj ekvs"
proof -
  from assms(2) have "(name, e) \<in> set ps"
    by (rule map_of_SomeD)
  with assms(1) have "entry_ok e"
    by (auto simp: list_all_iff)
  then show ?thesis
    by (cases e) auto
qed

lemma index_upsert_incomplete:
  assumes "index_ok packages"
    and "map_of kvs ''description'' = None \<or> map_of kvs ''dependencies'' = None"
  shows "index_upsert packages name (JObj kvs) (Return v) d =
           Raise (KeyError (if map_of kvs ''description'' = None then ''description''
                            else ''dependencies''))"
proof -
  from assms(1) obtain ps where ps: "packages = JObj ps"
    by (cases packages) auto
  define ps1 where "ps1 = (if map_of ps name \<noteq> None then ps else AList.update name new_entry ps)"
  have s1: "and_then (if map_of ps name \<noteq> None then Return (JObj ps)
                      else py_setitem (JObj ps) name new_entry) f = f (JObj ps1)" for f :: "json \<Rightarrow> json result"
    by (simp add: ps1_def)
  show ?thesis
  proof (cases "map_of kvs ''description''")
    case None
    then show ?thesis
      unfolding index_upsert_def ps by (simp add: s1)
  next
    case (Some description)
    with assms(2) have dn: "map_of kvs ''dependencies'' = None"
      by simp
    have "\<exists>e. map_of ps1 name = Some e \<and> (\<exists>ekvs. e = JObj ekvs)"
    proof (cases "map_of ps name")
      case None
      then show ?thesis
        by (simp add: ps1_def update_conv' new_entry_def)
    next
      case (Some e)
      with index_ok_entry[OF assms(1)[unfolded ps] Some] show ?thesis
        by (simp add: ps1_def)
    qed
    then obtain ekvs where e: "map_of ps1 name = Some (JObj ekvs)"
      by blast
    show ?thesis
      unfolding index_upsert_def ps using Some dn e[unfolded ps1_def]
      by (auto simp: update_conv' new_entry_def split: if_splits)
  qed
qed

lemma read_handler_modelled: "fst (read_handler version e w) \<noteq> Unmodelled"
  by (cases e) auto

lemma a2b_loop_modelled: "a2b_loop s quad left pads out \<noteq> Unmodelled"
  by (induction s quad left pads out rule: a2b_loop.induct) (auto split: option.splits)

lemma of_lib_modelled: "of_lib x \<noteq> Unmodelled"
  by (cases x) auto

lemma decode_archive_modelled: "decode_archive L t \<noteq> Unmodelled"
  unfolding decode_archive_def b64decode_def
  by (simp add: and_then_Unmodelled a2b_loop_modelled of_lib_modelled)

lemma read_package_modelled:
  assumes "CHR ''/'' \<notin> set (archive_name n v)"
  shows "fst (read_package L n v w) \<noteq> Unmodelled"
proof -
  have "and_then (pool_read w (archive_name n v)) (\<lambda>data.
           and_then (decode_archive L data) (\<lambda>manifest.
           Return (manifest, sha256_hexdigest L (str_encode data)))) \<noteq> Unmodelled"
    using assms
    by (auto simp: and_then_Unmodelled decode_archive_modelled pool_read_def
        split: option.splits node.splits)
  then show ?thesis
    unfolding read_package_def
    by (auto simp: read_handler_modelled split: result.splits)
qed

lemma read_package_found:
  assumes "map_of (pool_dir w) (archive_name n v) = Some (TextFile t)"
    and "decode_archive L t = Return m"
    and "CHR ''/'' \<notin> set (archive_name n v)" and "CHR 0x00 \<notin> set (archive_name n v)"
  shows "read_package L n v w = (Return (Some (m, sha256_hexdigest L (str_encode t))), w)"
  using assms by (simp add: read_package_def pool_read_def)

lemma only_printed_pool:
  "only_printed w w' \<Longrightarrow> pool_dir w' = pool_dir w"
  by (simp add: only_printed_def)

lemma pool_dir_print: "pool_dir (print s w) = pool_dir w"
  by (simp add: print_def)

lemma index_versions_ok:
  assumes "index_ok packages" and "\<forall>v\<in>set vs. CHR ''/'' \<notin> set (archive_name n v)"
  shows "fst (index_versions L n vs packages w) \<noteq> Unmodelled \<and>
         (\<forall>p. fst (index_versions L n vs packages w) = Return p \<longrightarrow> index_ok p)"
  using assms
proof (induction vs arbitrary: packages w)
  case Nil
  then show ?case by simp
next
  case (Cons v vs)
  obtain r1 w1 where rp: "read_package L n v w = (r1, w1)"
    by force
  from Cons.prems(2) have sl: "CHR ''/'' \<notin> set (archive_name n v)"
    and rest: "\<forall>v\<in>set vs. CHR ''/'' \<notin> set (archive_name n v)"
    by simp_all
  from read_package_modelled[OF sl, of L w] rp have m: "r1 \<noteq> Unmodelled"
    by simp
  show ?case
  proof (cases r1)
    case (Return found)
    show ?thesis
    proof (cases found)
      case None
      with rp Return Cons.IH[OF Cons.prems(1) rest, of w1] show ?thesis
        by simp
    next
      case (Some md)
      obtain m d where md: "md = (m, d)"
        by (cases md)
      show ?thesis
      proof (cases "index_upsert packages n m (Return v) d")
        case (Return p1)
        from index_upsert_index_ok[OF Return Cons.prems(1)] have "index_ok p1" .
        from Cons.IH[OF this rest, of "print (''[+] Version '' @ v) w1"] rp \<open>r1 = Return found\<close>
          Some md Return show ?thesis
          by simp
      next
        case (Raise e)
        with rp \<open>r1 = Return found\<close> Some md show ?thesis
          by simp
      next
        case Unmodelled
        with index_upsert_modelled show ?thesis
          by blast
      qed
    qed
  next
    case (Raise e)
    with rp show ?thesis by simp
  next
    case Unmodelled
    with m show ?thesis by simp
  qed
qed

lemma index_versions_incomplete_head:
  assumes "index_ok packages"
    and "map_of (pool_dir w) (archive_name n v) = Some (TextFile t)"
    and "decode_archive L t = Return (JObj kvs)"
    and "map_of kvs ''description'' = None \<or> map_of kvs ''dependencies'' = None"
    and "CHR ''/'' \<notin> set (archive_name n v)" and "CHR 0x00 \<notin> set (archive_name n v)"
  shows "index_versions L n (v # vs) packages w =
           (Raise (KeyError (if map_of kvs ''description'' = None then ''description''
                             else ''dependencies'')),
            print (''[+] Version '' @ v) w)"
  using read_package_found[OF assms(2,3,5,6)] index_upsert_incomplete[OF assms(1,4)]
  by simp

lemma index_versions_incomplete:
  assumes "index_ok packages"
    and "\<forall>v\<in>set vs. CHR ''/'' \<notin> set (archive_name n v)"
    and "v \<in> set vs"
    and "map_of (pool_dir w) (archive_name n v) = Some (TextFile t)"
    and "decode_archive L t = Return (JObj kvs)"
    and "map_of kvs ''description'' = None \<or> map_of kvs ''dependencies'' = None"
    and "CHR 0x00 \<notin> set (archive_name n v)"
  shows "\<exists>e w'. index_versions L n vs packages w = (Raise e, w')"
  using assms(1,2,3,4)
proof (induction vs arbitrary: packages w)
  case Nil
  then show ?case by simp
next
  case (Cons v' vs)
  show ?case
  proof (cases "v' = v")
    case True
    from Cons.prems(2) True have "CHR ''/'' \<notin> set (archive_name n v)"
      by simp
    from index_versions_incomplete_head[OF Cons.prems(1,4) assms(5,6) this assms(7)] True
    show ?thesis
      by blast
  next
    case False
    with Cons.prems(3) have mem: "v \<in> set vs"
      by simp
    from Cons.prems(2) have sl: "CHR ''/'' \<notin> set (archive_name n v')"
      and rest: "\<forall>v\<in>set vs. CHR ''/'' \<notin> set (archive_name n v)"
      by simp_all
    obtain r1 w1 where rp: "read_package L n v' w = (r1, w1)"
      by force
    from read_package_modelled[OF sl, of L w] rp have m: "r1 \<noteq> Unmodelled"
      by simp
    from only_printed_pool[OF read_package_only_printed[OF rp]] Cons.prems(4)
    have pool: "map_of (pool_dir w1) (archive_name n v) = Some (TextFile t)"
      by simp
    show ?thesis
    proof (cases r1)
      case (Return found)
      show ?thesis
      proof (cases found)
        case None
        with rp Return Cons.IH[OF Cons.prems(1) rest mem pool] show ?thesis
          by simp
      next
        case (Some md)
        obtain m d where md: "md = (m, d)"
          by (cases md)
        show ?thesis
        proof (cases "index_upsert packages n m (Return v') d")
          case (Return p1)
          from index_upsert_index_ok[OF Return Cons.prems(1)] have ok: "index_ok p1" .
          from pool have "map_of (pool_dir (print (''[+] Version '' @ v') w1)) (archive_name n v) =
                Some (TextFile t)"
            by (simp add: pool_dir_print)
          from Cons.IH[OF ok rest mem this] rp \<open>r1 = Return found\<close> Some md Return show ?thesis
            by simp
        next
          case (Raise e)
          with rp \<open>r1 = Return found\<close> Some md show ?thesis
            by simp
        next
          case Unmodelled
          with index_upsert_modelled show ?thesis
            by blast
        qed
      qed
    next
      case (Raise e)
      with rp show ?thesis by simp
    next
      case Unmodelled
      with m show ?thesis by simp
    qed
  qed
qed

lemma index_packages_incomplete:
  assumes "index_ok packages"
    and "\<forall>b\<in>set built. \<forall>v\<in>set (snd b). CHR ''/'' \<notin> set (archive_name (fst b) v)"
    and "(n, vs) \<in> set built" and "v \<in> set vs"
    and "map_of (pool_dir w) (archive_name n v) = Some (TextFile t)"
    and "decode_archive L t = Return (JObj kvs)"
    and "map_of kvs ''description'' = None \<or> map_of kvs ''dependencies'' = None"
    and "CHR 0x00 \<notin> set (archive_name n v)"
  shows "\<exists>e w'. index_packages L built packages w = (Raise e, w')"
  using assms(1,2,3,5)
proof (induction built arbitrary: packages w)
  case Nil
  then show ?case by simp
next
  case (Cons b built)
  obtain n' vs' where b: "b = (n', vs')"
    by (cases b)
  from Cons.prems(2) b have sl: "\<forall>v\<in>set vs'. CHR ''/'' \<notin> set (archive_name n' v)"
    and rest: "\<forall>b\<in>set built. \<forall>v\<in>set (snd b). CHR ''/'' \<notin> set (archive_name (fst b) v)"
    by simp_all
  obtain r1 w1 where iv: "index_versions L n' vs' packages (print (''Indexing '' @ n') w) = (r1, w1)"
    by force
  have pool0: "map_of (pool_dir (print (''Indexing '' @ n') w)) (archive_name n v) = Some (TextFile t)"
    using Cons.prems(4) by (simp add: pool_dir_print)
  show ?case
  proof (cases "(n', vs') = (n, vs)")
    case True
    then have "n' = n" "vs' = vs"
      by simp_all
    with index_versions_incomplete[OF Cons.prems(1) sl[unfolded \<open>n' = n\<close> \<open>vs' = vs\<close>] assms(4)
        pool0 assms(6,7,8)] b show ?thesis
      by auto
  next
    case False
    with Cons.prems(3) b have mem: "(n, vs) \<in> set built"
      by auto
    from index_versions_ok[OF Cons.prems(1) sl, of L "print (''Indexing '' @ n') w"] iv
    have m: "r1 \<noteq> Unmodelled" and ok: "\<And>p. r1 = Return p \<Longrightarrow> index_ok p"
      by simp_all
    from only_printed_pool[OF index_versions_only_printed[OF iv]] pool0
    have pool: "map_of (pool_dir w1) (archive_name n v) = Some (TextFile t)"
      by simp
    show ?thesis
    proof (cases r1)
      case (Return p1)
      from Cons.IH[OF ok[OF Return] rest mem pool] iv Return b show ?thesis
        by simp
    next
      case (Raise e)
      with iv b show ?thesis by simp
    next
      case Unmodelled
      with m show ?thesis by simp
    qed
  qed
qed

lemma split_entry_modelled: "split_entry fname \<noteq> Unmodelled"
  by (simp add: split_entry_def Let_def)

lemma group_entries_modelled: "group_entries entries rtn \<noteq> Unmodelled"
  by (induction entries arbitrary: rtn) (auto simp: split_entry_modelled split: result.splits)

lemma repair_package_index_incomplete:
  assumes "map_of (pool_dir w) (stem @ ''.ccp'') = Some (TextFile t)"
    and "decode_archive L t = Return (JObj kvs)"
    and "map_of kvs ''description'' = None \<or> map_of kvs ''dependencies'' = None"
    and "pool_names_ok w"
  shows "\<exists>e w1. repair_package_index L w = (Raise e, w1)"
proof -
  define entries where "entries =
     map fst (filter (\<lambda>entry. fst entry \<noteq> INDEX_FILE \<and> snd entry \<noteq> Directory) (pool_dir w))"
  have names: "CHR ''/'' \<notin> set f \<and> CHR 0x00 \<notin> set f" if "f \<in> set entries" for f
    using that assms(4) by (auto simp: entries_def pool_names_ok_def list_all_iff)
  from assms(1) have "(stem @ ''.ccp'', TextFile t) \<in> set (pool_dir w)"
    by (rule map_of_SomeD)
  then have mem: "stem @ ''.ccp'' \<in> set entries"
    using index_file_not_archive[of stem] unfolding entries_def by force
  show ?thesis
  proof (cases "group_entries entries []")
    case (Return built)
    from group_entries_mem[OF Return mem] obtain n v vs where
      s: "split_entry (stem @ ''.ccp'') = Return (n, v)" and b: "map_of built n = Some vs"
      and v: "v \<in> set vs"
      by blast
    from split_entry_archive[OF s] have a: "archive_name n v = stem @ ''.ccp''" .
    from b have nb: "(n, vs) \<in> set built"
      by (rule map_of_SomeD)
    have all: "CHR ''/'' \<notin> set (archive_name n' v') \<and> CHR 0x00 \<notin> set (archive_name n' v')"
      if "(n', vs') \<in> set built" and "v' \<in> set vs'" for n' vs' v'
    proof (rule group_entries_all[OF Return _ _ that])
      show "\<And>n vs v. (n, vs) \<in> set [] \<Longrightarrow> v \<in> set vs \<Longrightarrow>
          CHR ''/'' \<notin> set (archive_name n v) \<and> CHR 0x00 \<notin> set (archive_name n v)"
        by simp
      show "\<And>fname n v. fname \<in> set entries \<Longrightarrow> split_entry fname = Return (n, v) \<Longrightarrow>
          CHR ''/'' \<notin> set (archive_name n v) \<and> CHR 0x00 \<notin> set (archive_name n v)"
        using names archive_name_chars by blast
    qed
    then have sl: "\<forall>b\<in>set built. \<forall>v\<in>set (snd b). CHR ''/'' \<notin> set (archive_name (fst b) v)"
      by auto
    from all[OF nb v] have nul: "CHR 0x00 \<notin> set (archive_name n v)"
      by simp
    have ok: "index_ok (JObj [])"
      by simp
    from index_packages_incomplete[OF ok sl nb v assms(1)[folded a] assms(2,3) nul]
    show ?thesis
      unfolding repair_package_index_def get_built_packages_def entries_def[symmetric] Return
      by simp
  next
    case (Raise e)
    then show ?thesis
      unfolding repair_package_index_def get_built_packages_def entries_def[symmetric]
      by simp
  next
    case Unmodelled
    with group_entries_modelled show ?thesis
      by blast
  qed
qed


subsection \<open>The latest version\<close>

lemma index_upsert_latest:
  assumes "index_upsert packages name manifest version digest = Return packages'"
  shows "\<exists>v. version = Return v \<and> latest_version packages' name = Return (JStr v)"
  using index_upsert_Return[OF assms] unfolding latest_version_def
  by (auto simp: update_conv')

lemma latest_version_cong:
  "py_getitem p name = py_getitem q name \<Longrightarrow> latest_version p name = latest_version q name"
  by (simp add: latest_version_def)

lemma read_handler_fst:
  "fst (read_handler version e w) = fst (read_handler version e w')"
  by (cases e) auto

lemma read_package_fst:
  assumes "pool_dir w = pool_dir w'"
  shows "fst (read_package L n v w) = fst (read_package L n v w')"
proof -
  have "pool_read w (archive_name n v) = pool_read w' (archive_name n v)"
    using assms by (simp add: pool_read_def)
  then show ?thesis
    unfolding read_package_def
    by (auto simp: read_handler_fst[of v _ w w'] split: result.splits)
qed

lemma indexed_versions_cong:
  "pool_dir w = pool_dir w' \<Longrightarrow> indexed_versions L w n vs = indexed_versions L w' n vs"
  unfolding indexed_versions_def using read_package_fst[of w w' L n] by simp

lemma index_versions_other:
  assumes "index_versions L n vs packages w = (Return packages', w')" and "name \<noteq> n"
  shows "py_getitem packages' name = py_getitem packages name"
  using assms(1)
proof (induction vs arbitrary: packages w)
  case Nil
  then show ?case by simp
next
  case (Cons v vs)
  obtain r1 w1 where rp: "read_package L n v w = (r1, w1)"
    by force
  show ?case
  proof (cases r1)
    case (Return found)
    show ?thesis
    proof (cases found)
      case None
      with Cons.prems rp Return have "index_versions L n vs packages w1 = (Return packages', w')"
        by simp
      from Cons.IH[OF this] show ?thesis .
    next
      case (Some md)
      obtain m d where md: "md = (m, d)"
        by (cases md)
      from Cons.prems rp Return Some md obtain p1 where
        u: "index_upsert packages n m (Return v) d = Return p1"
        and l: "index_versions L n vs p1 (print (''[+] Version '' @ v) w1) = (Return packages', w')"
        by (auto simp: Let_def split: result.splits)
      from index_upsert_other[OF u assms(2)] Cons.IH[OF l] show ?thesis
        by simp
    qed
  next
    case (Raise e)
    with Cons.prems rp show ?thesis by simp
  next
    case Unmodelled
    with Cons.prems rp show ?thesis by simp
  qed
qed

lemma index_packages_other:
  assumes "index_packages L built packages w = (Return packages', w')"
    and "name \<notin> fst ` set built"
  shows "py_getitem packages' name = py_getitem packages name"
  using assms
proof (induction built arbitrary: packages w)
  case Nil
  then show ?case by simp
next
  case (Cons b built)
  obtain n vs where b: "b = (n, vs)"
    by (cases b)
  from Cons.prems(2) b have ne: "name \<noteq> n" and rest: "name \<notin> fst ` set built"
    by auto
  from Cons.prems(1) b obtain p1 w1 where
    iv: "index_versions L n vs packages (print (''Indexing '' @ n) w) = (Return p1, w1)"
    and l: "index_packages L built p1 w1 = (Return packages', w')"
    by (auto split: prod.splits result.splits)
  from index_versions_other[OF iv ne] Cons.IH[OF l rest] show ?case
    by simp
qed

lemma index_versions_latest:
  assumes "index_versions L name versions packages w = (Return packages', w')"
    and "pool_dir w = pool_dir w0"
  shows "if indexed_versions L w0 name versions = [] then packages' = packages
         else latest_version packages' name =
                Return (JStr (last (indexed_versions L w0 name versions)))"
  using assms
proof (induction versions arbitrary: packages w)
  case Nil
  then show ?case by (simp add: indexed_versions_def)
next
  case (Cons v vs)
  obtain r1 w1 where rp: "read_package L name v w = (r1, w1)"
    by force
  from only_printed_pool[OF read_package_only_printed[OF rp]] Cons.prems(2)
  have pool: "pool_dir w1 = pool_dir w0"
    by simp
  from read_package_fst[OF Cons.prems(2), of L name v] rp
  have r0: "fst (read_package L name v w0) = r1"
    by simp
  show ?case
  proof (cases r1)
    case (Return found)
    show ?thesis
    proof (cases found)
      case None
      with Cons.prems(1) rp Return have
        "index_versions L name vs packages w1 = (Return packages', w')"
        by simp
      from Cons.IH[OF this pool] r0 Return None show ?thesis
        by (simp add: indexed_versions_def)
    next
      case (Some md)
      obtain m d where md: "md = (m, d)"
        by (cases md)
      from Cons.prems(1) rp Return Some md obtain p1 where
        u: "index_upsert packages name m (Return v) d = Return p1"
        and l: "index_versions L name vs p1 (print (''[+] Version '' @ v) w1) = (Return packages', w')"
        by (auto simp: Let_def split: result.splits)
      from pool have "pool_dir (print (''[+] Version '' @ v) w1) = pool_dir w0"
        by (simp add: pool_dir_print)
      note ih = Cons.IH[OF l this]
      from index_upsert_latest[OF u] have lv: "latest_version p1 name = Return (JStr v)"
        by simp
      have iv: "indexed_versions L w0 name (v # vs) = v # indexed_versions L w0 name vs"
        using r0 Return Some by (simp add: indexed_versions_def)
      show ?thesis
      proof (cases "indexed_versions L w0 name vs = []")
        case True
        with ih lv iv show ?thesis
          by simp
      next
        case False
        with ih iv show ?thesis
          by simp
      qed
    qed
  next
    case (Raise e)
    with Cons.prems(1) rp show ?thesis by simp
  next
    case Unmodelled
    with Cons.prems(1) rp show ?thesis by simp
  qed
qed

lemma index_packages_latest:
  assumes "index_packages L built packages w = (Return packages', w')"
    and "pool_dir w = pool_dir w0" and "distinct (map fst built)"
    and "(name, versions) \<in> set built" and "indexed_versions L w0 name versions \<noteq> []"
  shows "latest_version packages' name =
           Return (JStr (last (indexed_versions L w0 name versions)))"
  using assms(1,2,3,4)
proof (induction built arbitrary: packages w)
  case Nil
  then show ?case by simp
next
  case (Cons b built)
  obtain n vs where b: "b = (n, vs)"
    by (cases b)
  from Cons.prems(1) b obtain p1 w1 where
    iv: "index_versions L n vs packages (print (''Indexing '' @ n) w) = (Return p1, w1)"
    and l: "index_packages L built p1 w1 = (Return packages', w')"
    by (auto split: prod.splits result.splits)
  have pool0: "pool_dir (print (''Indexing '' @ n) w) = pool_dir w0"
    using Cons.prems(2) by (simp add: pool_dir_print)
  from only_printed_pool[OF index_versions_only_printed[OF iv]] pool0
  have pool: "pool_dir w1 = pool_dir w0"
    by simp
  from Cons.prems(3) b have d: "distinct (map fst built)" and nn: "n \<notin> fst ` set built"
    by auto
  show ?case
  proof (cases "(n, vs) = (name, versions)")
    case True
    then have e: "n = name" "vs = versions"
      by simp_all
    from index_versions_latest[OF iv[unfolded e] pool0[unfolded e]] assms(5)
    have "latest_version p1 name = Return (JStr (last (indexed_versions L w0 name versions)))"
      by simp
    moreover from index_packages_other[OF l nn[unfolded e]]
    have "latest_version packages' name = latest_version p1 name"
      by (rule latest_version_cong)
    ultimately show ?thesis
      by simp
  next
    case False
    with Cons.prems(4) b have "(name, versions) \<in> set built"
      by auto
    from Cons.IH[OF l pool d this] show ?thesis .
  qed
qed

lemma group_entries_distinct:
  assumes "group_entries entries rtn = Return built" and "distinct (map fst rtn)"
  shows "distinct (map fst built)"
  using assms
proof (induction entries arbitrary: rtn)
  case Nil
  then show ?case by simp
next
  case (Cons f entries)
  from Cons.prems(1) obtain n1 v1 where
    g: "group_entries entries
            (case map_of rtn n1 of
               Some versions \<Rightarrow> AList.update n1 (versions @ [v1]) rtn
             | None \<Rightarrow> AList.update n1 [v1] rtn) = Return built"
    by (auto split: result.splits)
  have "distinct (map fst (case map_of rtn n1 of
               Some versions \<Rightarrow> AList.update n1 (versions @ [v1]) rtn
             | None \<Rightarrow> AList.update n1 [v1] rtn))"
    using Cons.prems(2) by (simp add: distinct_update split: option.splits)
  from Cons.IH[OF g this] show ?case .
qed

lemma repair_package_index_latest:
  assumes "get_built_packages w = Return built" and "map_of built name = Some versions"
    and "indexed_versions L w name versions \<noteq> []"
    and "repair_package_index L w = (Return packages, w1)"
  shows "latest_version packages name = Return (JStr (last (indexed_versions L w name versions)))"
proof -
  from assms(1) have "distinct (map fst built)"
    unfolding get_built_packages_def by (rule group_entries_distinct) simp
  moreover from assms(2) have "(name, versions) \<in> set built"
    by (rule map_of_SomeD)
  moreover from assms(1,4) have "index_packages L built (JObj []) w = (Return packages, w1)"
    by (simp add: repair_package_index_def)
  ultimately show ?thesis
    using assms(3) index_packages_latest[of L built "JObj []" w packages w1 w name versions]
    by simp
qed

lemma build_package_None:
  assumes "build_package L name w = (Return None, w')"
  shows "fst (get_manifest L name w) = Return None"
proof -
  obtain r0 w0 where g: "get_manifest L name w = (r0, w0)"
    by force
  show ?thesis
  proof (cases r0)
    case (Return mo)
    show ?thesis
    proof (cases mo)
      case None
      with g Return show ?thesis by simp
    next
      case (Some m)
      have "fst (build_package L name w) \<noteq> Return None"
        unfolding build_package_def g Return Some then_do_def
        by (cases "py_setitem m ''files'' (JObj [])")
          (auto split: prod.splits result.splits)
      with assms show ?thesis
        by simp
    qed
  next
    case (Raise e)
    with assms g show ?thesis
      by (simp add: build_package_def then_do_def)
  next
    case Unmodelled
    with assms g show ?thesis
      by (simp add: build_package_def then_do_def)
  qed
qed

lemma build_and_write_package_Return_None:
  assumes "build_and_write_package L name w = (Return None, w')"
  shows "fst (get_manifest L name (print (''Packaging '' @ name) w)) = Return None"
proof -
  obtain r0 w0 where b: "build_package L name (print (''Packaging '' @ name) w) = (r0, w0)"
    by force
  show ?thesis
  proof (cases r0)
    case (Return po)
    show ?thesis
    proof (cases po)
      case None
      with b Return show ?thesis
        by (simp add: build_package_None)
    next
      case (Some p)
      have "fst (build_and_write_package L name w) \<noteq> Return None"
        unfolding build_and_write_package_def b Return Some then_do_def Let_def
        by (cases "and_then (py_getitem p ''version'') version_string")
          (auto simp: bytes_decode_compress split: prod.splits result.splits)
      with assms show ?thesis
        by simp
    qed
  next
    case (Raise e)
    with assms b show ?thesis
      by (simp add: build_and_write_package_def then_do_def)
  next
    case Unmodelled
    with assms b show ?thesis
      by (simp add: build_and_write_package_def then_do_def)
  qed
qed

lemma build_and_write_package_version:
  assumes "build_and_write_package L name w = (Return r, w')"
    and "packages_dir w = packages_dir w0"
    and "fst (get_manifest L name w0) = Return (Some m)"
  shows "\<exists>p d. r = Some (p, d) \<and> py_getitem p ''version'' = py_getitem m ''version''"
proof -
  have g0: "fst (get_manifest L name (print (''Packaging '' @ name) w)) = Return (Some m)"
    using get_manifest_fst[of "print (''Packaging '' @ name) w" w0 L name] assms(2,3)
    by (simp add: packages_dir_print)
  show ?thesis
  proof (cases r)
    case None
    with assms(1) build_and_write_package_Return_None[of L name w w'] g0 show ?thesis
      by simp
  next
    case (Some pd)
    obtain p d where pd: "pd = (p, d)"
      by (cases pd)
    from build_and_write_package_Some[OF assms(1)[unfolded Some pd]] obtain w1 where
      b: "build_package L name (print (''Packaging '' @ name) w) = (Return (Some p), w1)"
      by blast
    from build_package_Some[OF b] obtain m' w2 where
      g: "get_manifest L name (print (''Packaging '' @ name) w) = (Return (Some m'), w2)"
      by blast
    with g0 have g': "get_manifest L name (print (''Packaging '' @ name) w) = (Return (Some m), w2)"
      by simp
    from build_package_keys[OF g' b, of "''version''"] Some pd show ?thesis
      by simp
  qed
qed

lemma build_packages_latest:
  assumes "build_packages L names packages w = (Return packages', w')"
    and "packages_dir w = packages_dir w0" and "name \<in> set names"
    and "fst (get_manifest L name w0) = Return (Some m)"
    and "py_getitem m ''version'' = Return (JStr v)"
  shows "latest_version packages' name = Return (JStr v)"
  using assms(1,2,3)
proof (induction names arbitrary: packages w)
  case Nil
  then show ?case by simp
next
  case (Cons n names)
  obtain r1 w1 where b: "build_and_write_package L n w = (r1, w1)"
    by force
  from build_and_write_package_archives_written[OF b] Cons.prems(2)
  have pd: "packages_dir w1 = packages_dir w0"
    by (simp add: archives_written_packages_dir)
  from Cons.prems(1) b obtain r where r1: "r1 = Return r"
    by (cases r1) auto
  show ?case
  proof (cases "name \<in> set names")
    case True
    have "\<exists>p1. build_packages L names p1 w1 = (Return packages', w')"
    proof (cases r)
      case None
      with Cons.prems(1) b r1 show ?thesis
        by auto
    next
      case (Some md)
      obtain m' d' where "md = (m', d')"
        by (cases md)
      with Cons.prems(1) b r1 Some show ?thesis
        by (cases "index_upsert packages n m' (and_then (py_getitem m' ''version'') version_string) d'")
          auto
    qed
    then obtain p1 where "build_packages L names p1 w1 = (Return packages', w')"
      by blast
    from Cons.IH[OF this pd True] show ?thesis .
  next
    case False
    with Cons.prems(3) have n: "n = name"
      by simp
    from build_and_write_package_version[OF b[unfolded r1 n] Cons.prems(2) assms(4)] obtain p d where
      r: "r = Some (p, d)" and pv: "py_getitem p ''version'' = py_getitem m ''version''"
      by blast
    from Cons.prems(1) b r1 r n have "\<exists>p1.
        index_upsert packages name p (and_then (py_getitem p ''version'') version_string) d =
            Return p1 \<and> build_packages L names p1 w1 = (Return packages', w')"
      by (cases "index_upsert packages name p (and_then (py_getitem p ''version'') version_string) d")
        auto
    then obtain p1 where
      u: "index_upsert packages name p (and_then (py_getitem p ''version'') version_string) d =
            Return p1"
      and l: "build_packages L names p1 w1 = (Return packages', w')"
      by blast
    have vs: "and_then (py_getitem p ''version'') version_string = Return v"
      unfolding pv assms(5) by simp
    from index_upsert_latest[OF u[unfolded vs]] have "latest_version p1 name = Return (JStr v)"
      by simp
    moreover from build_packages_other[OF l pd disjI1[OF False]]
    have "py_getitem packages' name = py_getitem p1 name"
      by simp
    then have "latest_version packages' name = latest_version p1 name"
      by (rule latest_version_cong)
    ultimately show ?thesis
      by simp
  qed
qed

lemma build_index_latest:
  assumes "name \<in> set (get_source_packages w)"
    and "fst (get_manifest L name w) = Return (Some m)"
    and "py_getitem m ''version'' = Return (JStr v)"
    and "build_index L w = (Return packages, w1)"
  shows "latest_version packages name = Return (JStr v)"
proof -
  from assms(4) obtain prior where
    "build_packages L (get_source_packages w) prior w = (Return packages, w1)"
    unfolding build_index_def by (auto split: result.splits)
  from build_packages_latest[OF this refl assms(1,2,3)] show ?thesis .
qed


subsection \<open>Packages that build\<close>

lemma builds_cases:
  assumes "builds L w name"
  obtains p t kvs v where "map_of (packages_dir w) name = Some p"
    and "manifest_file p = Some (TextFile t)" and "json_load L t = Inr (JObj kvs)"
    and "map_of kvs ''version'' = Some (JStr v)"
    and "map_of kvs ''description'' \<noteq> None" and "map_of kvs ''dependencies'' \<noteq> None"
    and "CHR 0x00 \<notin> set (archive_name name v)" and "CHR ''/'' \<notin> set (archive_name name v)"
    and "map_of (pool_dir w) (archive_name name v) \<noteq> Some Directory"
proof -
  from assms obtain p where p: "map_of (packages_dir w) name = Some p"
    unfolding builds_def by (cases "map_of (packages_dir w) name") simp_all
  from assms p obtain t where t: "manifest_file p = Some (TextFile t)"
    unfolding builds_def by (simp split: option.splits node.splits)
  from assms p t obtain kvs where k: "json_load L t = Inr (JObj kvs)"
    unfolding builds_def by (simp split: sum.splits json.splits)
  from assms p t k obtain v where v: "map_of kvs ''version'' = Some (JStr v)"
    unfolding builds_def by (simp split: option.splits json.splits)
  from assms p t k v have "map_of kvs ''description'' \<noteq> None \<and> map_of kvs ''dependencies'' \<noteq> None
     \<and> CHR 0x00 \<notin> set (archive_name name v) \<and> CHR ''/'' \<notin> set (archive_name name v)
     \<and> map_of (pool_dir w) (archive_name name v) \<noteq> Some Directory"
    unfolding builds_def by simp
  with p t k v that show ?thesis
    by blast
qed

lemma check_fields_object:
  "\<exists>w'. check_fields (JObj kvs) keys w = (Return (), w')"
  by (induction keys arbitrary: w) auto

lemma get_manifest_valid:
  assumes "map_of (packages_dir w) name = Some p"
    and "manifest_file p = Some (TextFile t)" and "json_load L t = Inr (JObj kvs)"
  shows "\<exists>w1. get_manifest L name w = (Return (Some (JObj kvs)), w1)"
proof -
  have o: "open_manifest (print ''[i] Reading manifest'' w) name = Return t"
    using assms(1,2) by (simp add: open_manifest_def print_def)
  obtain w2 where "check_fields (JObj kvs) MANIFEST_FIELDS (print ''[i] Reading manifest'' w) =
      (Return (), w2)"
    using check_fields_object by blast
  then show ?thesis
    unfolding get_manifest_def Let_def o using assms(3) by simp
qed

lemma get_manifest_missing:
  assumes "map_of (packages_dir w) name = Some p" and "manifest_file p = None"
  shows "get_manifest L name w =
           (Return None, print ''[!] Package is invalid (no manifest)''
                           (print ''[i] Reading manifest'' w))"
proof -
  have o: "open_manifest (print ''[i] Reading manifest'' w) name = Raise FileNotFoundError"
    using assms by (simp add: open_manifest_def print_def)
  show ?thesis
    unfolding get_manifest_def Let_def o by simp
qed

lemma build_and_write_package_missing:
  assumes "map_of (packages_dir w) name = Some p" and "manifest_file p = None"
  shows "build_and_write_package L name w =
           (Return None,
            w\<lparr>stdout := stdout w @ [Line (''Packaging '' @ name), Line ''[i] Reading manifest'',
                                    Line ''[!] Package is invalid (no manifest)'']\<rparr>)"
proof -
  have "map_of (packages_dir (print (''Packaging '' @ name) w)) name = Some p"
    using assms(1) by (simp add: print_def)
  from get_manifest_missing[OF this assms(2), of L] show ?thesis
    by (simp add: build_and_write_package_def build_package_def then_do_def print_def)
qed

lemma add_files_Return:
  assumes "map_of (packages_dir w) name = Some p" and "set paths \<subseteq> fst ` set (sources p)"
    and "map_of kvs ''files'' = Some (JObj fs)"
  shows "\<exists>kvs' w'. add_files L name paths (JObj kvs) w = (Return (JObj kvs'), w')"
  using assms
proof (induction paths arbitrary: kvs fs w)
  case Nil
  then show ?case by simp
next
  case (Cons path paths)
  from Cons.prems(2) have "path \<in> fst ` set (sources p)"
    by simp
  then obtain content where c: "map_of (sources p) path = Some content"
    by (metis domD dom_map_of_conv_image_fst)
  have pd: "map_of (packages_dir (print (''[+] '' @ path) w)) name = Some p"
    using Cons.prems(1) by (simp add: print_def)
  then have r: "read_source (print (''[+] '' @ path) w) name path = Return content"
    using c by (simp add: read_source_def)
  have s: "set_file (JObj kvs) path (file_entry L content) =
        Return (JObj (AList.update ''files'' (JObj (AList.update path (file_entry L content) fs)) kvs))"
    using Cons.prems(3) by (simp add: set_file_def)
  have f: "map_of (AList.update ''files'' (JObj (AList.update path (file_entry L content) fs)) kvs)
             ''files'' = Some (JObj (AList.update path (file_entry L content) fs))"
    by (simp add: update_conv')
  from Cons.prems(2) have sub: "set paths \<subseteq> fst ` set (sources p)"
    by simp
  have "add_files L name (path # paths) (JObj kvs) w =
        add_files L name paths
          (JObj (AList.update ''files'' (JObj (AList.update path (file_entry L content) fs)) kvs))
          (print (''[+] '' @ path) w)"
    unfolding add_files.simps Let_def r s and_then.simps result.case ..
  with Cons.IH[OF pd sub f] show ?case
    by simp
qed

lemma build_package_valid:
  assumes "map_of (packages_dir w) name = Some p"
    and "manifest_file p = Some (TextFile t)" and "json_load L t = Inr (JObj kvs)"
  shows "\<exists>kvs' w2. build_package L name w = (Return (Some (JObj kvs')), w2) \<and>
           (\<forall>key. key \<noteq> ''files'' \<longrightarrow> map_of kvs' key = map_of kvs key)"
proof -
  from get_manifest_valid[OF assms] obtain w1 where
    g: "get_manifest L name w = (Return (Some (JObj kvs)), w1)"
    by blast
  from get_manifest_only_printed[OF g] assms(1) have pd: "map_of (packages_dir w1) name = Some p"
    by (simp add: only_printed_def)
  have sub: "set (get_package_files w1 name) \<subseteq> fst ` set (sources p)"
    using pd by (simp add: get_package_files_def)
  have f: "map_of (AList.update ''files'' (JObj []) kvs) ''files'' = Some (JObj [])"
    by (simp add: update_conv')
  from add_files_Return[OF pd sub f] obtain kvs' w2 where
    a: "add_files L name (get_package_files w1 name) (JObj (AList.update ''files'' (JObj []) kvs)) w1 =
          (Return (JObj kvs'), w2)"
    by blast
  have b: "build_package L name w = (Return (Some (JObj kvs')), w2)"
    unfolding build_package_def using g a by (simp add: then_do_def)
  have "map_of kvs' key = map_of kvs key" if "key \<noteq> ''files''" for key
  proof -
    from build_package_keys[OF g b that] have "py_getitem (JObj kvs') key = py_getitem (JObj kvs) key"
      by simp
    then show ?thesis
      by (cases "map_of kvs' key"; cases "map_of kvs key") simp_all
  qed
  with b show ?thesis
    by blast
qed

lemma build_and_write_package_valid:
  assumes "builds L w0 name" and "packages_dir w = packages_dir w0"
    and "\<forall>f. map_of (pool_dir w) f = Some Directory \<longrightarrow> map_of (pool_dir w0) f = Some Directory"
  shows "\<exists>kvs d w' v x y. build_and_write_package L name w = (Return (Some (JObj kvs, d)), w') \<and>
           map_of kvs ''version'' = Some (JStr v) \<and> map_of kvs ''description'' = Some x \<and>
           map_of kvs ''dependencies'' = Some y"
proof -
  from assms(1) obtain p t mkvs v where m: "map_of (packages_dir w0) name = Some p"
    and mf: "manifest_file p = Some (TextFile t)" and j: "json_load L t = Inr (JObj mkvs)"
    and ver: "map_of mkvs ''version'' = Some (JStr v)"
    and de: "map_of mkvs ''description'' \<noteq> None" and dp: "map_of mkvs ''dependencies'' \<noteq> None"
    and nul: "CHR 0x00 \<notin> set (archive_name name v)" and sl: "CHR ''/'' \<notin> set (archive_name name v)"
    and nd: "map_of (pool_dir w0) (archive_name name v) \<noteq> Some Directory"
    by (rule builds_cases)
  have "map_of (packages_dir (print (''Packaging '' @ name) w)) name = Some p"
    using m assms(2) by (simp add: print_def)
  from build_package_valid[OF this mf j] obtain kvs w2 where
    b: "build_package L name (print (''Packaging '' @ name) w) = (Return (Some (JObj kvs)), w2)"
    and keys: "\<And>key. key \<noteq> ''files'' \<Longrightarrow> map_of kvs key = map_of mkvs key"
    by blast
  from only_printed_after_print[OF build_package_only_printed[OF b]]
  have pool: "pool_dir w2 = pool_dir w"
    by (simp add: only_printed_def)
  from nd assms(3) pool have nd2: "map_of (pool_dir w2) (archive_name name v) \<noteq> Some Directory"
    by auto
  have kv: "map_of kvs ''version'' = Some (JStr v)"
    using keys[of "''version''"] ver by simp
  obtain x where kx: "map_of kvs ''description'' = Some x"
    using keys[of "''description''"] de by auto
  obtain y where ky: "map_of kvs ''dependencies'' = Some y"
    using keys[of "''dependencies''"] dp by auto
  have pw: "\<exists>w4. pool_write (archive_name name v) (compress L (JObj kvs)) w2 = (Return (), w4)"
    using nul sl nd2 by (auto simp: pool_write_def split: option.splits node.splits)
  then obtain w4 where
    "pool_write (archive_name name v) (compress L (JObj kvs)) w2 = (Return (), w4)"
    by blast
  then have "build_and_write_package L name w =
      (Return (Some (JObj kvs, sha256_hexdigest L (compress L (JObj kvs)))), w4)"
    unfolding build_and_write_package_def using b kv
    by (simp add: then_do_def Let_def bytes_decode_compress)
  with kv kx ky show ?thesis
    by blast
qed

lemma entry_ok_cases:
  assumes "entry_ok e"
  obtains ekvs vs where "e = JObj ekvs" and "map_of ekvs ''versions'' = Some (JObj vs)"
  using assms by (cases e) (auto split: option.splits json.splits)

lemma index_upsert_valid:
  assumes "index_ok packages" and "map_of kvs ''description'' = Some x"
    and "map_of kvs ''dependencies'' = Some y"
  shows "\<exists>p'. index_upsert packages name (JObj kvs) (Return v) d = Return p'"
proof -
  from assms(1) obtain ps where ps: "packages = JObj ps"
    by (cases packages) auto
  show ?thesis
  proof (cases "map_of ps name")
    case None
    then show ?thesis
      unfolding index_upsert_def ps using assms(2,3)
      by (simp add: update_conv' new_entry_def)
  next
    case (Some e)
    then have "(name, e) \<in> set ps"
      by (rule map_of_SomeD)
    with assms(1) ps have "entry_ok e"
      by (auto simp: list_all_iff)
    then obtain ekvs vs where "e = JObj ekvs" "map_of ekvs ''versions'' = Some (JObj vs)"
      by (rule entry_ok_cases)
    with Some show ?thesis
      unfolding index_upsert_def ps using assms(2,3)
      by (simp add: update_conv')
  qed
qed

lemma index_upsert_contains:
  assumes "index_upsert packages name m vr d = Return p'"
  shows "py_contains p' name = Return True \<and>
         (py_contains packages n = Return True \<longrightarrow> py_contains p' n = Return True)"
  using index_upsert_Return[OF assms]
  by (auto simp: update_conv')

lemma archives_written_directories:
  assumes "archives_written w w'" and "map_of (pool_dir w') f = Some Directory"
  shows "map_of (pool_dir w) f = Some Directory"
proof -
  from assms(1) have "map_of (pool_dir w') f = map_of (pool_dir w) f \<or>
           ((\<exists>s. f = s @ ''.ccp'') \<and> (\<exists>t. map_of (pool_dir w') f = Some (TextFile t)) \<and>
            map_of (pool_dir w) f \<noteq> Some Directory)"
    unfolding archives_written_def by blast
  with assms(2) show ?thesis
    by auto
qed

lemma build_packages_progress:
  assumes "index_ok packages" and "packages_dir w = packages_dir w0"
    and "\<forall>f. map_of (pool_dir w) f = Some Directory \<longrightarrow> map_of (pool_dir w0) f = Some Directory"
    and "\<forall>n\<in>set names. builds L w0 n \<or>
           (\<exists>p. map_of (packages_dir w0) n = Some p \<and> manifest_file p = None)"
  shows "\<exists>p' w'. build_packages L names packages w = (Return p', w') \<and>
           (\<forall>n. (n \<in> set names \<and> builds L w0 n) \<or> py_contains packages n = Return True \<longrightarrow>
                py_contains p' n = Return True)"
  using assms
proof (induction names arbitrary: packages w)
  case Nil
  then show ?case by simp
next
  case (Cons n names)
  from Cons.prems(4) have rest: "\<forall>n\<in>set names. builds L w0 n \<or>
           (\<exists>p. map_of (packages_dir w0) n = Some p \<and> manifest_file p = None)"
    by simp
  obtain r1 w1 where b: "build_and_write_package L n w = (r1, w1)"
    by force
  note aw = build_and_write_package_archives_written[OF b]
  from aw Cons.prems(2) have pd: "packages_dir w1 = packages_dir w0"
    by (simp add: archives_written_def)
  from archives_written_directories[OF aw] Cons.prems(3)
  have dirs: "\<forall>f. map_of (pool_dir w1) f = Some Directory \<longrightarrow> map_of (pool_dir w0) f = Some Directory"
    by blast
  show ?case
  proof (cases "builds L w0 n")
    case True
    from build_and_write_package_valid[OF True Cons.prems(2,3)] b obtain kvs d v x y where
      r1: "r1 = Return (Some (JObj kvs, d))"
      and kv: "map_of kvs ''version'' = Some (JStr v)"
      and kx: "map_of kvs ''description'' = Some x" and ky: "map_of kvs ''dependencies'' = Some y"
      by auto
    from index_upsert_valid[OF Cons.prems(1) kx ky] obtain p1 where
      u: "index_upsert packages n (JObj kvs) (Return v) d = Return p1"
      by blast
    from index_upsert_index_ok[OF u Cons.prems(1)] have ok: "index_ok p1" .
    from Cons.IH[OF ok pd dirs rest] obtain p' w' where
      l: "build_packages L names p1 w1 = (Return p', w')"
      and c: "\<And>m. (m \<in> set names \<and> builds L w0 m) \<or> py_contains p1 m = Return True \<Longrightarrow>
                py_contains p' m = Return True"
      by blast
    have "build_packages L (n # names) packages w = (Return p', w')"
      using b r1 kv u l by simp
    moreover have "py_contains p' m = Return True"
      if "(m \<in> set (n # names) \<and> builds L w0 m) \<or> py_contains packages m = Return True" for m
      using that index_upsert_contains[OF u, of m] c[of m] by auto
    ultimately show ?thesis
      by blast
  next
    case False
    with Cons.prems(4) obtain p where "map_of (packages_dir w0) n = Some p" "manifest_file p = None"
      by auto
    with Cons.prems(2) have "map_of (packages_dir w) n = Some p" "manifest_file p = None"
      by simp_all
    from build_and_write_package_missing[OF this, of L] b have r1: "r1 = Return None"
      by simp
    from Cons.IH[OF Cons.prems(1) pd dirs rest] obtain p' w' where
      l: "build_packages L names packages w1 = (Return p', w')"
      and c: "\<And>m. (m \<in> set names \<and> builds L w0 m) \<or> py_contains packages m = Return True \<Longrightarrow>
                py_contains p' m = Return True"
      by blast
    have "build_packages L (n # names) packages w = (Return p', w')"
      using b r1 l by simp
    moreover have "py_contains p' m = Return True"
      if "(m \<in> set (n # names) \<and> builds L w0 m) \<or> py_contains packages m = Return True" for m
      using that False c[of m] by auto
    ultimately show ?thesis
      by blast
  qed
qed

lemma build_packages_log:
  assumes "build_packages L names packages w = (Return p', w')"
    and "k \<in> set names" and "packages_dir w = packages_dir w0"
    and "map_of (packages_dir w0) k = Some pk" and "manifest_file pk = None"
  shows "\<exists>before after. stdout w' =
           before @ [Line (''Packaging '' @ k), Line ''[i] Reading manifest'',
                     Line ''[!] Package is invalid (no manifest)''] @ after"
  using assms(1,2,3)
proof (induction names arbitrary: packages w)
  case Nil
  then show ?case by simp
next
  case (Cons n names)
  obtain r1 w1 where b: "build_and_write_package L n w = (r1, w1)"
    by force
  note aw = build_and_write_package_archives_written[OF b]
  from aw Cons.prems(3) have pd: "packages_dir w1 = packages_dir w0"
    by (simp add: archives_written_def)
  from Cons.prems(1) b obtain p1 where l: "build_packages L names p1 w1 = (Return p', w')"
    by (auto split: result.splits option.splits)
  show ?case
  proof (cases "n = k")
    case True
    from assms(4,5) Cons.prems(3) have "map_of (packages_dir w) k = Some pk" "manifest_file pk = None"
      by simp_all
    from build_and_write_package_missing[OF this, of L] b True
    have w1: "stdout w1 = stdout w @ [Line (''Packaging '' @ k), Line ''[i] Reading manifest'',
                     Line ''[!] Package is invalid (no manifest)'']"
      by auto
    from build_packages_archives_written[OF l] obtain ls where "stdout w' = stdout w1 @ ls"
      unfolding archives_written_def by blast
    with w1 show ?thesis
      by auto
  next
    case False
    with Cons.prems(2) have "k \<in> set names"
      by simp
    from Cons.IH[OF l this pd] show ?thesis .
  qed
qed

section \<open>The claims\<close>

subsection \<open>C1: the archive codec round-trips\<close>

text \<open>
  Claim C1. For a package record \<open>r\<close>, the archive text that \<^verbatim>\<open>compress\<close> produces
  (JSON text, compressed at level 9, base64) and the script writes decodes, by base64
  decoding, decompression and JSON parsing as \<^verbatim>\<open>read_package\<close> does them, to \<open>r\<close> again:
  all manifest fields, the files map and the digests. The two facts about the libraries
  used are that \<^verbatim>\<open>zlib.decompress\<close> inverts \<^verbatim>\<open>zlib.compress\<close> on the JSON text of \<open>r\<close> and
  that \<^verbatim>\<open>json.loads\<close> parses that text to \<open>r\<close>.
\<close>

theorem codec_round_trip:
  assumes "zlib_decompress L (zlib_compress L (str_encode (json_dumps L r))) =
             Inr (str_encode (json_dumps L r))"
    and "json_loads_bytes L (str_encode (json_dumps L r)) = Inr r"
  shows "and_then (bytes_decode (compress L r)) (decode_archive L) = Return r"
  using assms by (rule archive_decodes)

theorem codec_round_trip_witness:
  "zlib_decompress example_libs (zlib_compress example_libs (str_encode (json_dumps example_libs foo_record))) =
     Inr (str_encode (json_dumps example_libs foo_record))
   \<and> json_loads_bytes example_libs (str_encode (json_dumps example_libs foo_record)) = Inr foo_record
   \<and> and_then (bytes_decode (compress example_libs foo_record)) (decode_archive example_libs) =
       Return foo_record"
proof -
  have z: "zlib_decompress example_libs (zlib_compress example_libs (str_encode (json_dumps example_libs foo_record))) =
     Inr (str_encode (json_dumps example_libs foo_record))"
    by code_simp
  have j: "json_loads_bytes example_libs (str_encode (json_dumps example_libs foo_record)) = Inr foo_record"
    by code_simp
  from z j codec_round_trip[OF z j] show ?thesis
    by (intro conjI)
qed

subsection \<open>C6: build mode and repair mode hash the same bytes\<close>

text \<open>
  Claim C6. When \<^verbatim>\<open>build_and_write_package\<close> has written the archive of a package, the
  digest it returns for the index (the hash of the encoded bytes) is the digest
  \<^verbatim>\<open>read_package\<close> computes in repair mode from the unmodified file (the hash of the text
  read back, encoded to bytes).
\<close>

theorem archive_digest_agrees:
  assumes "build_and_write_package L name w = (Return (Some (package, digest)), w1)"
    and "py_getitem package ''version'' = Return (JStr version)"
    and "read_package L name version w1 = (Return (Some (manifest, digest')), w2)"
  shows "digest' = digest"
proof -
  from build_and_write_package_Some[OF assms(1)] assms(2) obtain w0 where
    d: "digest = sha256_hexdigest L (compress L package)"
    and w1: "w1 = w0\<lparr>pool_dir := AList.update (archive_name name version)
                      (TextFile (compress L package)) (pool_dir w0)\<rparr>"
    by auto
  from read_package_Some[OF assms(3)] obtain t where
    t: "map_of (pool_dir w1) (archive_name name version) = Some (TextFile t)"
    and d': "digest' = sha256_hexdigest L (str_encode t)"
    by auto
  from t w1 have "t = compress L package"
    by (simp add: update_conv')
  with d d' show ?thesis
    by (simp add: str_encode_ascii compress_ascii)
qed

theorem archive_digest_agrees_witness:
  "build_and_write_package example_libs ''foo'' foo_world =
     (Return (Some (foo_record, foo_digest)), foo_world_built)
   \<and> py_getitem foo_record ''version'' = Return (JStr ''1.0'')
   \<and> read_package example_libs ''foo'' ''1.0'' foo_world_built =
       (Return (Some (foo_record, foo_digest)), foo_world_built)"
proof -
  have b: "build_and_write_package example_libs ''foo'' foo_world =
     (Return (Some (foo_record, foo_digest)), foo_world_built)"
    by code_simp
  have v: "py_getitem foo_record ''version'' = Return (JStr ''1.0'')"
    by code_simp
  have r: "read_package example_libs ''foo'' ''1.0'' foo_world_built =
       (Return (Some (foo_record, foo_digest)), foo_world_built)"
    by code_simp
  from archive_digest_agrees[OF b v r] b v r show ?thesis
    by (intro conjI)
qed

subsection \<open>C9: the latest version is the one processed last\<close>

text \<open>
  Claim C9. Repair: when \<^verbatim>\<open>repair_package_index\<close> returns, a package of the listing with
  at least one version whose archive was read has as \<^verbatim>\<open>latest_version\<close> the last such
  version in the order of the listing. Build: when the loop of the script returns, a
  package of the source tree whose manifest was read has as \<^verbatim>\<open>latest_version\<close> the
  version of that manifest, whatever versions the prior index holds for it. In both
  modes it is the version processed last in the run, and no order on versions is
  consulted: in the instances below version 2.0 comes first (first in the listing, or in
  the prior index) and version 1.0 is processed after it, and the latest version is 1.0.
\<close>

theorem latest_version_last_write:
  "(\<forall>built versions packages w1.
      get_built_packages w = Return built \<longrightarrow> map_of built name = Some versions \<longrightarrow>
      indexed_versions L w name versions \<noteq> [] \<longrightarrow>
      repair_package_index L w = (Return packages, w1) \<longrightarrow>
      latest_version packages name = Return (JStr (last (indexed_versions L w name versions))))
   \<and> (\<forall>manifest version packages w1.
      name \<in> set (get_source_packages w) \<longrightarrow>
      fst (get_manifest L name w) = Return (Some manifest) \<longrightarrow>
      py_getitem manifest ''version'' = Return (JStr version) \<longrightarrow>
      build_index L w = (Return packages, w1) \<longrightarrow>
      latest_version packages name = Return (JStr version))"
  using repair_package_index_latest build_index_latest by blast

theorem latest_version_last_write_witness:
  "get_built_packages two_world = Return [(''foo'', [''2.0'', ''1.0''])]
   \<and> indexed_versions versions_libs two_world ''foo'' [''2.0'', ''1.0''] = [''2.0'', ''1.0'']
   \<and> repair_package_index versions_libs two_world =
       (Return both_index, snd (repair_package_index versions_libs two_world))
   \<and> ''foo'' \<in> set (get_source_packages newer_world)
   \<and> fst (get_manifest versions_libs ''foo'' newer_world) = Return (Some foo_manifest)
   \<and> py_getitem foo_manifest ''version'' = Return (JStr ''1.0'')
   \<and> load_index versions_libs newer_world = Return newer_index
   \<and> latest_version newer_index ''foo'' = Return (JStr ''2.0'')
   \<and> build_index versions_libs newer_world =
       (Return both_index, snd (build_index versions_libs newer_world))
   \<and> latest_version both_index ''foo'' = Return (JStr ''1.0'')"
proof -
  have g: "get_built_packages two_world = Return [(''foo'', [''2.0'', ''1.0''])]"
    by code_simp
  have m: "map_of [(''foo'', [''2.0'', ''1.0''])] ''foo'' = Some [''2.0'', ''1.0'']"
    by simp
  have i: "indexed_versions versions_libs two_world ''foo'' [''2.0'', ''1.0''] = [''2.0'', ''1.0'']"
    by code_simp
  have r: "repair_package_index versions_libs two_world =
       (Return both_index, snd (repair_package_index versions_libs two_world))"
    by code_simp
  have s: "''foo'' \<in> set (get_source_packages newer_world)"
    by code_simp
  have f: "fst (get_manifest versions_libs ''foo'' newer_world) = Return (Some foo_manifest)"
    by code_simp
  have v: "py_getitem foo_manifest ''version'' = Return (JStr ''1.0'')"
    by code_simp
  have l: "load_index versions_libs newer_world = Return newer_index"
    by code_simp
  have n: "latest_version newer_index ''foo'' = Return (JStr ''2.0'')"
    by code_simp
  have b: "build_index versions_libs newer_world =
       (Return both_index, snd (build_index versions_libs newer_world))"
    by code_simp
  note t = latest_version_last_write[of two_world "''foo''" versions_libs]
  from t g m i r have "latest_version both_index ''foo'' = Return (JStr (last [''2.0'', ''1.0'']))"
    by (metis list.distinct(1))
  then have a: "latest_version both_index ''foo'' = Return (JStr ''1.0'')"
    by simp
  note u = latest_version_last_write[of newer_world "''foo''" versions_libs]
  from u s f v b have "latest_version both_index ''foo'' = Return (JStr ''1.0'')"
    by blast
  with g i r s f v l n b show ?thesis
    by (intro conjI)
qed

subsection \<open>C7: an exception in build mode leaves the index alone\<close>

text \<open>
  Claim C7. When the \<^verbatim>\<open>try\<close> block of build mode raises an exception \<open>e\<close>, in the loop
  over the packages or because the index file of the pool is no JSON text, the script
  exits with status 1, its last two lines are the error and the hint to use
  \<^verbatim>\<open>--repair\<close>, and the index file of the pool is what it was before the run.
\<close>

theorem build_failure_policy:
  assumes "build_index L w = (Raise e, w1) \<or>
           (\<exists>t. map_of (pool_dir w) INDEX_FILE = Some (TextFile t) \<and> json_load L t = Inl e)"
  shows "fst (main L False w) = Exit 1
       \<and> (\<exists>printed. stdout (snd (main L False w)) = stdout w @ printed @
            [ErrorLine e,
             Line ''You can try to repair the package index using the --repair option.''])
       \<and> map_of (pool_dir (snd (main L False w))) INDEX_FILE = map_of (pool_dir w) INDEX_FILE"
proof -
  from assms obtain w1 where b: "build_index L w = (Raise e, w1)"
    by (auto simp: build_index_def load_index_def)
  from build_index_archives_written[OF b] obtain ls where
    ls: "stdout w1 = stdout w @ ls"
    and ix: "map_of (pool_dir w1) INDEX_FILE = map_of (pool_dir w) INDEX_FILE"
    using archives_written_index[of w w1] by (auto simp: archives_written_def)
  from b ls ix show ?thesis
    by (simp add: main_def print_def)
qed

theorem build_failure_policy_witness:
  "fst (build_index example_libs nov_world) = Raise (KeyError ''version'')
   \<and> fst (main example_libs False nov_world) = Exit 1
   \<and> map_of (pool_dir (snd (main example_libs False nov_world))) INDEX_FILE =
       map_of (pool_dir nov_world) INDEX_FILE
   \<and> map_of (pool_dir junk_world) INDEX_FILE = Some (TextFile ''{'')
   \<and> json_load example_libs ''{'' = Inl JSONDecodeError
   \<and> fst (main example_libs False junk_world) = Exit 1
   \<and> map_of (pool_dir (snd (main example_libs False junk_world))) INDEX_FILE =
       Some (TextFile ''{'')"
proof -
  have loop: "build_index example_libs nov_world =
      (Raise (KeyError ''version''), snd (build_index example_libs nov_world))"
    by code_simp
  have idx: "map_of (pool_dir junk_world) INDEX_FILE = Some (TextFile ''{'')"
    by code_simp
  have load: "json_load example_libs ''{'' = Inl JSONDecodeError"
    by code_simp
  have 1: "build_index example_libs nov_world =
      (Raise (KeyError ''version''), snd (build_index example_libs nov_world)) \<or>
      (\<exists>t. map_of (pool_dir nov_world) INDEX_FILE = Some (TextFile t) \<and>
           json_load example_libs t = Inl (KeyError ''version''))"
    using loop by (rule disjI1)
  have 2: "build_index example_libs junk_world = (Raise JSONDecodeError, junk_world) \<or>
      (\<exists>t. map_of (pool_dir junk_world) INDEX_FILE = Some (TextFile t) \<and>
           json_load example_libs t = Inl JSONDecodeError)"
    using idx load by blast
  from loop have l: "fst (build_index example_libs nov_world) = Raise (KeyError ''version'')"
    by (metis fst_conv)
  from build_failure_policy[OF 1] build_failure_policy[OF 2] l idx load show ?thesis
    by simp
qed

subsection \<open>C3: a manifest without a version stops the run\<close>

text \<open>
  Claim C3 says that a package whose manifest parses and lacks recognized fields gets
  one warning for each absent field and is built to the end. The loader does warn and
  go on, but the later steps read \<^verbatim>\<open>version\<close>, \<^verbatim>\<open>description\<close> and \<^verbatim>\<open>dependencies\<close>
  with a plain subscript. For the package \<^verbatim>\<open>nov\<close>, whose manifest has no version, the
  loader returns the manifest and prints its four warnings; then
  \<^verbatim>\<open>build_and_write_package\<close> raises \<^verbatim>\<open>KeyError\<close> at the archive's file name, the script
  exits with status 1 and neither archive nor index is written.
\<close>

theorem manifest_without_version_aborts:
  "fst (get_manifest example_libs ''nov'' nov_world) = Return (Some nov_manifest)
   \<and> main example_libs False nov_world =
       (Exit 1,
        nov_world\<lparr>stdout := [Line ''Packaging nov'', Line ''[i] Reading manifest'',
           Line ''[!] Package manifest is incomplete (missing 'license')'',
           Line ''[!] Package manifest is incomplete (missing 'authors')'',
           Line ''[!] Package manifest is incomplete (missing 'maintainers')'',
           Line ''[!] Package manifest is incomplete (missing 'version')'',
           ErrorLine (KeyError ''version''),
           Line ''You can try to repair the package index using the --repair option.'']\<rparr>)"
  by code_simp

subsection \<open>C4: an archive that is not ASCII text stops the repair\<close>

text \<open>
  Claim C4 says that repair mode skips every archive that fails to decode, logs it and
  goes on. \<^verbatim>\<open>read_package\<close> catches \<^verbatim>\<open>binascii.Error\<close>, \<^verbatim>\<open>zlib.error\<close> and
  \<^verbatim>\<open>JSONDecodeError\<close>; for a text with a character that is not ASCII,
  \<^verbatim>\<open>base64.b64decode\<close> raises a plain \<^verbatim>\<open>ValueError\<close>, which no clause catches. With the
  one archive file \<^verbatim>\<open>bad.1.0.ccp\<close> in the pool, repair mode exits with status 1 whatever
  the other libraries do, prints no skip line and writes no index.
\<close>

theorem non_ascii_archive_aborts_repair:
  "main L True bad_world =
     (Exit 1,
      bad_world\<lparr>stdout := [Line ''Indexing bad'', ErrorLine ValueError,
         Line ''You can try to repair the package index using the --repair option.'']\<rparr>)"
  by code_simp

subsection \<open>C8: the keys of the manifest in the package record\<close>

text \<open>
  Claim C8 says that every key of the manifest outside the recognized set keeps its
  value in the package record. \<^verbatim>\<open>files\<close> is such a key, and \<^verbatim>\<open>build_package\<close> assigns the
  file map to it: in the package \<^verbatim>\<open>ext\<close> the manifest's \<^verbatim>\<open>"files": "mine"\<close> is replaced by
  the (empty) file map.
\<close>

theorem files_key_replaced:
  "fst (get_manifest example_libs ''ext'' ext_world) = Return (Some ext_manifest)
   \<and> ''files'' \<notin> set MANIFEST_FIELDS
   \<and> py_getitem ext_manifest ''files'' = Return (JStr ''mine'')
   \<and> fst (build_package example_libs ''ext'' ext_world) = Return (Some ext_record)
   \<and> py_getitem ext_record ''files'' = Return (JObj [])
   \<and> py_getitem ext_record ''files'' \<noteq> py_getitem ext_manifest ''files''"
  by code_simp

text \<open>
  Claim C8, amended. Every key of the manifest other than \<^verbatim>\<open>files\<close>, recognized or not,
  is in the package record with the value the manifest gives it (and a key the manifest
  lacks, other than \<^verbatim>\<open>files\<close>, is not in the record); and the archive written for the
  record decodes to the record, given that \<^verbatim>\<open>zlib.decompress\<close> inverts
  \<^verbatim>\<open>zlib.compress\<close> and \<^verbatim>\<open>json.loads\<close> parses \<^verbatim>\<open>json.dumps\<close> on it.
\<close>

theorem other_keys_preserved:
  assumes "get_manifest L name w = (Return (Some manifest), w1)"
    and "build_package L name w = (Return (Some package), w2)"
    and "key \<noteq> ''files''"
    and "zlib_decompress L (zlib_compress L (str_encode (json_dumps L package))) =
           Inr (str_encode (json_dumps L package))"
    and "json_loads_bytes L (str_encode (json_dumps L package)) = Inr package"
  shows "py_getitem package key = py_getitem manifest key
       \<and> py_contains package key = py_contains manifest key
       \<and> and_then (bytes_decode (compress L package)) (decode_archive L) = Return package"
  using build_package_keys[OF assms(1) assms(2) assms(3)] archive_decodes[OF assms(4) assms(5)]
  by simp

theorem other_keys_preserved_witness:
  "get_manifest example_libs ''ext'' ext_world =
     (Return (Some ext_manifest), snd (get_manifest example_libs ''ext'' ext_world))
   \<and> build_package example_libs ''ext'' ext_world =
     (Return (Some ext_record), snd (build_package example_libs ''ext'' ext_world))
   \<and> ''homepage'' \<noteq> ''files''
   \<and> py_getitem ext_manifest ''homepage'' = Return (JStr ''h'')
   \<and> py_getitem ext_record ''homepage'' = py_getitem ext_manifest ''homepage''
   \<and> and_then (bytes_decode (compress example_libs ext_record)) (decode_archive example_libs) =
       Return ext_record"
proof -
  have m: "get_manifest example_libs ''ext'' ext_world =
     (Return (Some ext_manifest), snd (get_manifest example_libs ''ext'' ext_world))"
    by code_simp
  have b: "build_package example_libs ''ext'' ext_world =
     (Return (Some ext_record), snd (build_package example_libs ''ext'' ext_world))"
    by code_simp
  have k: "''homepage'' \<noteq> ''files''"
    by simp
  have z: "zlib_decompress example_libs
             (zlib_compress example_libs (str_encode (json_dumps example_libs ext_record))) =
           Inr (str_encode (json_dumps example_libs ext_record))"
    by code_simp
  have j: "json_loads_bytes example_libs (str_encode (json_dumps example_libs ext_record)) =
           Inr ext_record"
    by code_simp
  have h: "py_getitem ext_manifest ''homepage'' = Return (JStr ''h'')"
    by code_simp
  from other_keys_preserved[OF m b k z j] m b k h show ?thesis
    by simp
qed


subsection \<open>C5: packages that are not rebuilt keep their index entry\<close>

text \<open>
  Claim C5. In a build-mode run that starts from the prior index \<open>prior\<close> and whose loop
  returns the index \<open>packages\<close>, a package that is not rebuilt in the run (its name is no
  directory of the source tree, or \<^verbatim>\<open>get_manifest\<close> returns \<^verbatim>\<open>None\<close> for it) has in
  \<open>packages\<close> the entry it has in \<open>prior\<close>, and none if it has none there; so only the
  packages built in the run have entries inserted or modified. The run ends with status 0
  and the index file holds the JSON text of \<open>packages\<close>.
\<close>

theorem incremental_preservation:
  assumes "load_index L w = Return prior"
    and "build_index L w = (Return packages, w1)"
    and "name \<notin> set (get_source_packages w) \<or> fst (get_manifest L name w) = Return None"
  shows "py_getitem packages name = py_getitem prior name
       \<and> py_contains packages name = py_contains prior name
       \<and> fst (main L False w) = Exit 0
       \<and> map_of (pool_dir (snd (main L False w))) INDEX_FILE =
           Some (TextFile (json_dumps L packages))"
proof -
  from assms(1,2) have "build_packages L (get_source_packages w) prior w = (Return packages, w1)"
    by (simp add: build_index_def)
  from build_packages_other[OF this refl assms(3)] main_build_Return[OF assms(1,2)]
  show ?thesis
    by (simp add: update_conv')
qed

theorem incremental_preservation_witness:
  "load_index example_libs prior_world = Return prior_index
   \<and> build_index example_libs prior_world =
       (Return merged_index, snd (build_index example_libs prior_world))
   \<and> ''alpha'' \<notin> set (get_source_packages prior_world)
   \<and> fst (get_manifest example_libs ''bar'' prior_world) = Return None
   \<and> py_getitem merged_index ''alpha'' = py_getitem prior_index ''alpha''
   \<and> py_contains merged_index ''alpha'' = Return True
   \<and> py_contains merged_index ''bar'' = Return False
   \<and> fst (main example_libs False prior_world) = Exit 0
   \<and> map_of (pool_dir (snd (main example_libs False prior_world))) INDEX_FILE =
       Some (TextFile (json_dumps example_libs merged_index))"
proof -
  have l: "load_index example_libs prior_world = Return prior_index"
    by code_simp
  have b: "build_index example_libs prior_world =
       (Return merged_index, snd (build_index example_libs prior_world))"
    by code_simp
  have a: "''alpha'' \<notin> set (get_source_packages prior_world)"
    by code_simp
  have m: "fst (get_manifest example_libs ''bar'' prior_world) = Return None"
    by code_simp
  have c: "py_contains merged_index ''alpha'' = Return True"
    by code_simp
  have d: "py_contains merged_index ''bar'' = Return False"
    by code_simp
  from incremental_preservation[OF l b disjI1[OF a]] l b a m c d show ?thesis
    by simp
qed

subsection \<open>C10: an archive without description or dependencies stops the repair\<close>

text \<open>
  Claim C10. In repair mode, let the pool hold an archive file \<^verbatim>\<open>stem.ccp\<close> whose text
  base64-decodes, decompresses and parses to a dictionary without the key
  \<^verbatim>\<open>description\<close> or without the key \<^verbatim>\<open>dependencies\<close>. Then indexing that archive, on any
  index the loop has built so far, prints \<^verbatim>\<open>[+] Version\<close> and raises \<^verbatim>\<open>KeyError\<close> for the
  missing key, which leaves the loop over the versions with the later versions
  unvisited: the archive is not skipped. The run raises, ends with status 1 after the
  error line and the hint, and the pool is as it was: no index is written.
\<close>

theorem incomplete_record_aborts_repair:
  assumes "map_of (pool_dir w) (stem @ ''.ccp'') = Some (TextFile t)"
    and "decode_archive L t = Return (JObj kvs)"
    and "map_of kvs ''description'' = None \<or> map_of kvs ''dependencies'' = None"
    and "pool_names_ok w"
  shows "(\<forall>name version versions packages w'.
            archive_name name version = stem @ ''.ccp'' \<longrightarrow> index_ok packages \<longrightarrow>
            pool_dir w' = pool_dir w \<longrightarrow>
            index_versions L name (version # versions) packages w' =
              (Raise (KeyError (if map_of kvs ''description'' = None then ''description''
                                else ''dependencies'')),
               print (''[+] Version '' @ version) w'))
       \<and> (\<exists>e w1. repair_package_index L w = (Raise e, w1)
            \<and> main L True w =
                (Exit 1,
                 print ''You can try to repair the package index using the --repair option.''
                   (w1\<lparr>stdout := stdout w1 @ [ErrorLine e]\<rparr>))
            \<and> pool_dir (snd (main L True w)) = pool_dir w)"
proof (intro conjI allI impI)
  fix name version versions packages and w' :: world
  assume a: "archive_name name version = stem @ ''.ccp''" and ok: "index_ok packages"
    and p: "pool_dir w' = pool_dir w"
  from assms(1) have "(stem @ ''.ccp'', TextFile t) \<in> set (pool_dir w)"
    by (rule map_of_SomeD)
  with assms(4) have c: "CHR ''/'' \<notin> set (archive_name name version)"
    "CHR 0x00 \<notin> set (archive_name name version)"
    unfolding a pool_names_ok_def list_all_iff by force+
  from assms(1) a p have q: "map_of (pool_dir w') (archive_name name version) = Some (TextFile t)"
    by simp
  show "index_versions L name (version # versions) packages w' =
              (Raise (KeyError (if map_of kvs ''description'' = None then ''description''
                                else ''dependencies'')),
               print (''[+] Version '' @ version) w')"
    using ok q assms(2,3) c by (rule index_versions_incomplete_head)
next
  from repair_package_index_incomplete[OF assms] obtain e w1 where
    r: "repair_package_index L w = (Raise e, w1)"
    by blast
  from only_printed_pool[OF repair_package_index_only_printed[OF r]]
  have "pool_dir w1 = pool_dir w" .
  with r show "\<exists>e w1. repair_package_index L w = (Raise e, w1)
            \<and> main L True w =
                (Exit 1,
                 print ''You can try to repair the package index using the --repair option.''
                   (w1\<lparr>stdout := stdout w1 @ [ErrorLine e]\<rparr>))
            \<and> pool_dir (snd (main L True w)) = pool_dir w"
    by (simp add: main_def print_def)
qed

theorem incomplete_record_aborts_repair_witness:
  "map_of (pool_dir old_world) (''old.1.0'' @ ''.ccp'') = Some (TextFile old_archive)
   \<and> decode_archive example_libs old_archive = Return old_record
   \<and> py_contains old_record ''description'' = Return False
   \<and> pool_names_ok old_world
   \<and> index_versions example_libs ''old'' [''1.0''] (JObj []) old_world =
       (Raise (KeyError ''description''), print ''[+] Version 1.0'' old_world)
   \<and> fst (main example_libs True old_world) = Exit 1
   \<and> pool_dir (snd (main example_libs True old_world)) = pool_dir old_world"
proof -
  have a: "map_of (pool_dir old_world) (''old.1.0'' @ ''.ccp'') = Some (TextFile old_archive)"
    by code_simp
  have d: "decode_archive example_libs old_archive =
             Return (JObj [(''version'', JStr ''1.0''), (''dependencies'', JArr []), (''files'', JObj [])])"
    by code_simp
  have k: "map_of [(''version'', JStr ''1.0''), (''dependencies'', JArr []), (''files'', JObj [])]
              ''description'' = None
           \<or> map_of [(''version'', JStr ''1.0''), (''dependencies'', JArr []), (''files'', JObj [])]
              ''dependencies'' = None"
    by simp
  have n: "pool_names_ok old_world"
    by code_simp
  have c: "py_contains old_record ''description'' = Return False"
    by code_simp
  have an: "archive_name ''old'' ''1.0'' = ''old.1.0'' @ ''.ccp''"
    by (simp add: archive_name_def)
  have ok: "index_ok (JObj [])"
    by simp
  have pr: "''[+] Version '' @ ''1.0'' = ''[+] Version 1.0''"
    by simp
  note t = incomplete_record_aborts_repair[OF a d k n]
  from t have s: "index_versions example_libs ''old'' [''1.0''] (JObj []) old_world =
       (Raise (KeyError ''description''), print ''[+] Version 1.0'' old_world)"
    using an ok pr by auto
  from t have m: "fst (main example_libs True old_world) = Exit 1
     \<and> pool_dir (snd (main example_libs True old_world)) = pool_dir old_world"
    by auto
  from a d[folded old_record_def] c n s m show ?thesis
    by (intro conjI) simp_all
qed

subsection \<open>C2: a missing manifest does not stop the build\<close>

text \<open>
  Claim C2. Let the package \<open>k\<close> of the source tree have no manifest file, let every other
  package of the tree build (\<open>builds\<close>: its manifest parses to an object with a string
  version, a description and dependencies, and its archive can be written), and let the
  prior index load and be of the shape the script writes. Then the build-mode run ends
  with status 0 and writes the index the loop returns; that index has an entry for every
  other package of the tree, and for \<open>k\<close> an entry exactly if the prior index has one; and
  the output holds, in a row, the lines of the warning for \<open>k\<close>: \<^verbatim>\<open>Packaging k\<close>,
  \<^verbatim>\<open>[i] Reading manifest\<close>, \<^verbatim>\<open>[!] Package is invalid (no manifest)\<close>.
\<close>

theorem missing_manifest_isolated:
  assumes "map_of (packages_dir w) k = Some pk" and "manifest_file pk = None"
    and "\<forall>n\<in>set (get_source_packages w). n \<noteq> k \<longrightarrow> builds L w n"
    and "load_index L w = Return prior" and "index_ok prior"
  shows "\<exists>packages w1. build_index L w = (Return packages, w1)
           \<and> fst (main L False w) = Exit 0
           \<and> map_of (pool_dir (snd (main L False w))) INDEX_FILE =
               Some (TextFile (json_dumps L packages))
           \<and> (\<forall>n\<in>set (get_source_packages w). n \<noteq> k \<longrightarrow> py_contains packages n = Return True)
           \<and> py_contains packages k = py_contains prior k
           \<and> (\<exists>before after. stdout (snd (main L False w)) =
                 before @ [Line (''Packaging '' @ k), Line ''[i] Reading manifest'',
                           Line ''[!] Package is invalid (no manifest)''] @ after)"
proof -
  have each: "\<forall>n\<in>set (get_source_packages w). builds L w n \<or>
           (\<exists>p. map_of (packages_dir w) n = Some p \<and> manifest_file p = None)"
  proof
    fix n
    assume n: "n \<in> set (get_source_packages w)"
    show "builds L w n \<or> (\<exists>p. map_of (packages_dir w) n = Some p \<and> manifest_file p = None)"
    proof (cases "n = k")
      case True
      with assms(1,2) show ?thesis
        by simp
    next
      case False
      with assms(3) n show ?thesis
        by simp
    qed
  qed
  have dirs: "\<forall>f. map_of (pool_dir w) f = Some Directory \<longrightarrow> map_of (pool_dir w) f = Some Directory"
    by simp
  from build_packages_progress[OF assms(5) refl dirs each] obtain packages w1 where
    l: "build_packages L (get_source_packages w) prior w = (Return packages, w1)"
    and c: "\<And>n. (n \<in> set (get_source_packages w) \<and> builds L w n) \<or>
               py_contains prior n = Return True \<Longrightarrow> py_contains packages n = Return True"
    by blast
  from l assms(4) have b: "build_index L w = (Return packages, w1)"
    by (simp add: build_index_def)
  note m = main_build_Return[OF assms(4) b]
  from assms(1) have "(k, pk) \<in> set (packages_dir w)"
    by (rule map_of_SomeD)
  then have mem: "k \<in> set (get_source_packages w)"
    unfolding get_source_packages_def by force
  have "fst (get_manifest L k w) = Return None"
    using get_manifest_missing[OF assms(1,2), of L] by simp
  then have "k \<notin> set (get_source_packages w) \<or> fst (get_manifest L k w) = Return None"
    by simp
  from build_packages_other[OF l refl this]
  have same: "py_contains packages k = py_contains prior k"
    by simp
  from build_packages_log[OF l mem refl assms(1,2)] obtain before after where
    "stdout w1 = before @ [Line (''Packaging '' @ k), Line ''[i] Reading manifest'',
                     Line ''[!] Package is invalid (no manifest)''] @ after"
    by blast
  then have "stdout (snd (main L False w)) =
      before @ [Line (''Packaging '' @ k), Line ''[i] Reading manifest'',
                     Line ''[!] Package is invalid (no manifest)''] @ (after @ [Line ''Writing index''])"
    unfolding m by (simp add: print_def)
  then have log: "\<exists>before after. stdout (snd (main L False w)) =
                 before @ [Line (''Packaging '' @ k), Line ''[i] Reading manifest'',
                           Line ''[!] Package is invalid (no manifest)''] @ after"
    by blast
  have idx: "map_of (pool_dir (snd (main L False w))) INDEX_FILE =
               Some (TextFile (json_dumps L packages))"
    unfolding m by (simp add: update_conv')
  have ex: "fst (main L False w) = Exit 0"
    unfolding m by simp
  have ent: "\<forall>n\<in>set (get_source_packages w). n \<noteq> k \<longrightarrow> py_contains packages n = Return True"
    using c assms(3) by blast
  from b ex idx ent same log show ?thesis
    by (intro exI[of _ packages] exI[of _ w1] conjI)
qed

theorem missing_manifest_isolated_witness:
  "map_of (packages_dir foo_world) ''bar'' = Some \<lparr>manifest_file = None, sources = []\<rparr>
   \<and> get_source_packages foo_world = [''foo'', ''bar'']
   \<and> builds example_libs foo_world ''foo''
   \<and> load_index example_libs foo_world = Return (JObj [])
   \<and> build_index example_libs foo_world =
       (Return foo_index, snd (build_index example_libs foo_world))
   \<and> fst (main example_libs False foo_world) = Exit 0
   \<and> map_of (pool_dir (snd (main example_libs False foo_world))) INDEX_FILE =
       Some (TextFile foo_index_text)
   \<and> py_contains foo_index ''foo'' = Return True
   \<and> py_contains foo_index ''bar'' = Return False
   \<and> (\<exists>before after. stdout (snd (main example_libs False foo_world)) =
         before @ [Line ''Packaging bar'', Line ''[i] Reading manifest'',
                   Line ''[!] Package is invalid (no manifest)''] @ after)"
proof -
  have a: "map_of (packages_dir foo_world) ''bar'' = Some \<lparr>manifest_file = None, sources = []\<rparr>"
    by code_simp
  have n: "manifest_file \<lparr>manifest_file = None, sources = []\<rparr> = None"
    by simp
  have s: "get_source_packages foo_world = [''foo'', ''bar'']"
    by code_simp
  have f: "builds example_libs foo_world ''foo''"
    by code_simp
  have each: "\<forall>n\<in>set (get_source_packages foo_world). n \<noteq> ''bar'' \<longrightarrow>
                builds example_libs foo_world n"
    unfolding s using f by simp
  have l: "load_index example_libs foo_world = Return (JObj [])"
    by code_simp
  have ok: "index_ok (JObj [])"
    by simp
  have b: "build_index example_libs foo_world =
       (Return foo_index, snd (build_index example_libs foo_world))"
    by code_simp
  have t: "json_dumps example_libs foo_index = foo_index_text"
    by code_simp
  have c: "py_contains foo_index ''bar'' = Return False"
    by code_simp
  have p: "''Packaging '' @ ''bar'' = ''Packaging bar''"
    by simp
  from missing_manifest_isolated[OF a n each l ok] obtain packages w1 where
    r: "build_index example_libs foo_world = (Return packages, w1)"
      "fst (main example_libs False foo_world) = Exit 0"
      "map_of (pool_dir (snd (main example_libs False foo_world))) INDEX_FILE =
               Some (TextFile (json_dumps example_libs packages))"
      "\<forall>n\<in>set (get_source_packages foo_world). n \<noteq> ''bar'' \<longrightarrow>
          py_contains packages n = Return True"
      "\<exists>before after. stdout (snd (main example_libs False foo_world)) =
                 before @ [Line (''Packaging '' @ ''bar''), Line ''[i] Reading manifest'',
                           Line ''[!] Package is invalid (no manifest)''] @ after"
    by blast
  from r(1) b have pk: "packages = foo_index"
    by simp
  from r(4) have e: "py_contains foo_index ''foo'' = Return True"
    unfolding s pk by simp
  from a s f l b r(2) r(3)[unfolded pk t] e c r(5)[unfolded p] show ?thesis
    by (intro conjI)
qed
end
